theory Spec2Isabelle
  imports Main "HOL-Library.AList" "HOL-Library.Char_ord" "HOL-Library.List_Lexorder"
begin

section \<open>Records, query options and errors (types.ts)\<close>

text \<open>
  A business field holds a JSON scalar.  A property that reads as
  \<^verbatim>\<open>undefined\<close> is \<open>None\<close> of the surrounding option.  Numbers are the
  integer-valued doubles: the engine only counts versions and offsets.
\<close>

datatype jsval = JStr string | JNum int | JBool bool | JNull

datatype sync_status = Synced | Pending | Conflict

text \<open>
  \<^verbatim>\<open>DataRecord\<close> and \<^verbatim>\<open>Partial<DataRecord>\<close> share one shape: every metadata property
  may be absent, and the schema-specific properties form an open attribute map.
  The field \<open>id'\<close> is the property \<^verbatim>\<open>id\<close>; \<open>version\<close>, \<open>device_id\<close> and
  \<open>sync_status\<close> are \<^verbatim>\<open>_version\<close>, \<^verbatim>\<open>_device_id\<close> and \<^verbatim>\<open>_sync_status\<close>.
  Timestamps are the ISO strings the source stores.  A property that is
  present with the value \<^verbatim>\<open>undefined\<close> reads like an absent one, but an object
  spread copies it: \<open>undefined_props\<close> holds the names of those properties.
\<close>

record DataRecord =
  id' :: "string option"
  created_at :: "string option"
  updated_at :: "string option"
  version :: "int option"
  device_id :: "string option"
  sync_status :: "sync_status option"
  attrs :: "string \<rightharpoonup> jsval"
  undefined_props :: "string set"

datatype sort_order = asc | desc

record QueryOptions =
  orderBy :: "string option"
  order' :: "sort_order option"
  limit :: "int option"
  offset :: "int option"
  where' :: "(string \<times> jsval option) list option"

text \<open>
  \<open>Error m\<close> is \<^verbatim>\<open>new Error(m)\<close>; \<open>DOMException n\<close> is the exception named \<open>n\<close>
  that IndexedDB raises.
\<close>

datatype error = Error string | DOMException string

text \<open>
  What the host's JavaScript engine decides and the source only calls: the
  relational operator \<^verbatim>\<open><\<close> on property values, and
  \<^verbatim>\<open>new Date(s).getTime()\<close>, where \<open>None\<close> is \<^verbatim>\<open>NaN\<close>.
\<close>

record host =
  js_lt :: "jsval option \<Rightarrow> jsval option \<Rightarrow> bool"
  Date_getTime :: "string \<Rightarrow> int option"

subsection \<open>JavaScript idioms the source relies on\<close>

text \<open>\<^verbatim>\<open>a || b\<close> on an optional string: the empty string is falsy.\<close>

definition str_or :: "string option \<Rightarrow> string \<Rightarrow> string" where
  "str_or a b = (case a of None \<Rightarrow> b | Some s \<Rightarrow> if s = [] then b else s)"

text \<open>\<^verbatim>\<open>a || b\<close> on an optional number: zero is falsy.\<close>

definition num_or :: "int option \<Rightarrow> int \<Rightarrow> int" where
  "num_or a b = (case a of None \<Rightarrow> b | Some n \<Rightarrow> if n = 0 then b else n)"

text \<open>A template literal prints an absent identifier as \<^verbatim>\<open>undefined\<close>.\<close>

definition template :: "string option \<Rightarrow> string" where
  "template a = (case a of None \<Rightarrow> ''undefined'' | Some s \<Rightarrow> s)"

text \<open>
  \<^verbatim>\<open>a + b\<close> on numbers: the sum, rounded to the nearest double, a tie going to
  the even mantissa.  Doubles of magnitude \<open>2^53\<close> and more lie \<open>spacing\<close> apart.
\<close>

function spacing :: "int \<Rightarrow> int" where
  "spacing m = (if m < 9007199254740992 then 1 else 2 * spacing (m div 2))"
  by pat_completeness auto
termination
  by (relation "measure nat") auto

declare spacing.simps [simp del]

definition round_double :: "int \<Rightarrow> int" where
  "round_double x =
     (let m = \<bar>x\<bar>; u = spacing m; q = m div u; r = m mod u in
      sgn x * (if u < 2 * r \<or> (2 * r = u \<and> odd q) then (q + 1) * u else q * u))"

definition js_plus :: "int \<Rightarrow> int \<Rightarrow> int" where
  "js_plus a b = round_double (a + b)"

definition sync_status_name :: "sync_status \<Rightarrow> string" where
  "sync_status_name s = (case s of Synced \<Rightarrow> ''synced'' | Pending \<Rightarrow> ''pending'' | Conflict \<Rightarrow> ''conflict'')"

text \<open>Property access by name, \<^verbatim>\<open>(item as any)[key]\<close>.\<close>

definition property :: "DataRecord \<Rightarrow> string \<Rightarrow> jsval option" where
  "property r key =
     (if key = ''id'' then map_option JStr (id' r)
      else if key = ''created_at'' then map_option JStr (created_at r)
      else if key = ''updated_at'' then map_option JStr (updated_at r)
      else if key = ''_version'' then map_option JNum (version r)
      else if key = ''_device_id'' then map_option JStr (device_id r)
      else if key = ''_sync_status'' then map_option (JStr \<circ> sync_status_name) (sync_status r)
      else attrs r key)"

text \<open>
  The object spread \<^verbatim>\<open>{...a, ...b}\<close>: the right operand wins wherever it has the
  property, also where its value there is \<^verbatim>\<open>undefined\<close>.
\<close>

definition overlay :: "string \<Rightarrow> DataRecord \<Rightarrow> 'a option \<Rightarrow> 'a option \<Rightarrow> 'a option" where
  "overlay key b va vb =
     (case vb of Some x \<Rightarrow> Some x | None \<Rightarrow> if key \<in> undefined_props b then None else va)"

definition spread :: "DataRecord \<Rightarrow> DataRecord \<Rightarrow> DataRecord" where
  "spread a b =
     \<lparr> id' = overlay ''id'' b (id' a) (id' b),
       created_at = overlay ''created_at'' b (created_at a) (created_at b),
       updated_at = overlay ''updated_at'' b (updated_at a) (updated_at b),
       version = overlay ''_version'' b (version a) (version b),
       device_id = overlay ''_device_id'' b (device_id a) (device_id b),
       sync_status = overlay ''_sync_status'' b (sync_status a) (sync_status b),
       attrs = (\<lambda>key. overlay key b (attrs a key) (attrs b key)),
       undefined_props = Set.filter (\<lambda>key. property b key = None) (undefined_props a) \<union> undefined_props b \<rparr>"

text \<open>The shorthand property \<^verbatim>\<open>id\<close> at the end of an object literal.\<close>

definition with_id :: "string option \<Rightarrow> DataRecord \<Rightarrow> DataRecord" where
  "with_id i r =
     r\<lparr> id' := i,
        undefined_props := (if i = None then insert ''id'' (undefined_props r)
                            else undefined_props r - {''id''}) \<rparr>"

text \<open>
  \<^verbatim>\<open>xs.slice(start)\<close> and \<^verbatim>\<open>xs.slice(0, end)\<close>: a negative index counts from the end
  of the array, and both are clamped to the array.
\<close>

definition slice_index :: "int \<Rightarrow> 'a list \<Rightarrow> nat" where
  "slice_index i xs =
     (let n = int (length xs) in nat (if i < 0 then max (n + i) 0 else min i n))"

definition Array_slice_from :: "int \<Rightarrow> 'a list \<Rightarrow> 'a list" where
  "Array_slice_from start xs = drop (slice_index start xs) xs"

definition Array_slice_to :: "int \<Rightarrow> 'a list \<Rightarrow> 'a list" where
  "Array_slice_to end' xs = take (slice_index end' xs) xs"

text \<open>
  \<^verbatim>\<open>xs.sort(cmp)\<close> is a stable sort: an element stays in front of a later one
  unless the comparator returns a positive number for the pair.
\<close>

fun insert_by :: "('a \<Rightarrow> 'a \<Rightarrow> int) \<Rightarrow> 'a \<Rightarrow> 'a list \<Rightarrow> 'a list" where
  "insert_by cmp x [] = [x]"
| "insert_by cmp x (y # ys) = (if cmp x y \<le> 0 then x # y # ys else y # insert_by cmp x ys)"

definition Array_sort :: "('a \<Rightarrow> 'a \<Rightarrow> int) \<Rightarrow> 'a list \<Rightarrow> 'a list" where
  "Array_sort cmp xs = foldr (insert_by cmp) xs []"

text \<open>\<^verbatim>\<open>new Map(entries)\<close>: a later entry replaces an earlier one with the same key.\<close>

definition Map_of :: "('k \<times> 'v) list \<Rightarrow> 'k \<rightharpoonup> 'v" where
  "Map_of entries = map_of (rev entries)"

section \<open>The IndexedDB object stores\<close>

text \<open>
  An object store with key path \<^verbatim>\<open>id\<close> keeps its records in key order, one per
  key, and knows its indexes: the key path of each and whether it is unique.
\<close>

record IDBObjectStore =
  records :: "(string \<times> DataRecord) list"
  indexes :: "(string \<times> bool) list"

type_synonym IDBDatabase = "string \<rightharpoonup> IDBObjectStore"

definition TABLES :: "string list" where
  "TABLES = [''clients'', ''products'', ''product_components'', ''projects'',
             ''project_products'', ''transactions'', ''stock_movements'']"

text \<open>The indexes \<^verbatim>\<open>onupgradeneeded\<close> creates on each store.\<close>

definition table_indexes :: "string \<Rightarrow> (string \<times> bool) list" where
  "table_indexes table =
     [(''created_at'', False), (''updated_at'', False), (''_sync_status'', False), (''_version'', False)] @
     (if table = ''products'' then [(''name'', False), (''category'', False), (''type'', False)]
      else if table = ''clients'' then [(''name'', False), (''email'', False)]
      else if table = ''projects'' then [(''client_id'', False), (''status'', False), (''number'', True)]
      else if table = ''product_components'' then
        [(''parent_product_id'', False), (''component_product_id'', False)]
      else if table = ''project_products'' then [(''project_id'', False), (''product_id'', False)]
      else if table = ''transactions'' then [(''type'', False), (''date'', False), (''project_id'', False)]
      else if table = ''stock_movements'' then
        [(''product_id'', False), (''project_id'', False), (''movement_date'', False)]
      else [])"

definition onupgradeneeded :: "IDBDatabase \<Rightarrow> IDBDatabase" where
  "onupgradeneeded d =
     fold (\<lambda>table d. if d table \<noteq> None then d
                      else d(table \<mapsto> \<lparr> records = [], indexes = table_indexes table \<rparr>))
       TABLES d"

text \<open>Strings and numbers are valid keys; booleans and \<^verbatim>\<open>null\<close> are not.\<close>

fun valid_key :: "jsval \<Rightarrow> bool" where
  "valid_key (JStr s) = True"
| "valid_key (JNum n) = True"
| "valid_key (JBool b) = False"
| "valid_key JNull = False"

text \<open>The order of keys: every number is below every string.\<close>

fun key_lt :: "jsval \<Rightarrow> jsval \<Rightarrow> bool" where
  "key_lt (JNum a) (JNum b) = (a < b)"
| "key_lt (JNum a) (JStr b) = True"
| "key_lt (JStr a) (JStr b) = (a < b)"
| "key_lt v w = False"

definition getAll :: "IDBObjectStore \<Rightarrow> DataRecord list" where
  "getAll s = map snd (records s)"

text \<open>
  A record is in an index when its property at the key path is a valid key.
  \<^verbatim>\<open>index.getAll(v)\<close> returns the records whose index key is \<open>v\<close>, in
  primary-key order; with \<^verbatim>\<open>undefined\<close> or \<^verbatim>\<open>null\<close> it returns the whole index,
  in index-key order; any other invalid key is a \<^verbatim>\<open>DataError\<close>.
\<close>

definition in_index :: "string \<Rightarrow> DataRecord \<Rightarrow> bool" where
  "in_index path r = (case property r path of None \<Rightarrow> False | Some w \<Rightarrow> valid_key w)"

definition index_cmp :: "string \<Rightarrow> DataRecord \<Rightarrow> DataRecord \<Rightarrow> int" where
  "index_cmp path a b =
     (case (property a path, property b path) of
        (Some v, Some w) \<Rightarrow> if key_lt v w then - 1 else if key_lt w v then 1 else 0
      | _ \<Rightarrow> 0)"

definition index_getAll :: "string \<Rightarrow> jsval option \<Rightarrow> IDBObjectStore \<Rightarrow> error + DataRecord list" where
  "index_getAll path v s =
     (case v of
        None \<Rightarrow> Inr (Array_sort (index_cmp path) (filter (in_index path) (getAll s)))
      | Some w \<Rightarrow>
          if w = JNull then Inr (Array_sort (index_cmp path) (filter (in_index path) (getAll s)))
          else if \<not> valid_key w then Inl (DOMException ''DataError'')
          else Inr (filter (\<lambda>r. property r path = Some w) (getAll s)))"

text \<open>Placing a record under its key: an equal key is replaced, a new key goes
  to its place in key order.\<close>

fun store_insert :: "string \<Rightarrow> DataRecord \<Rightarrow> (string \<times> DataRecord) list \<Rightarrow> (string \<times> DataRecord) list" where
  "store_insert k r [] = [(k, r)]"
| "store_insert k r ((k', r') # rest) =
     (if k = k' then (k, r) # rest
      else if k < k' then (k, r) # (k', r') # rest
      else (k', r') # store_insert k r rest)"

text \<open>A unique index refuses a record whose index key another record already has.\<close>

definition unique_violation :: "IDBObjectStore \<Rightarrow> string \<Rightarrow> DataRecord \<Rightarrow> bool" where
  "unique_violation s k r =
     list_ex (\<lambda>(path, unique). unique \<and>
        (case property r path of
           None \<Rightarrow> False
         | Some v \<Rightarrow> valid_key v \<and> list_ex (\<lambda>(k', r'). k' \<noteq> k \<and> property r' path = Some v) (records s)))
       (indexes s)"

definition store_add :: "DataRecord \<Rightarrow> IDBObjectStore \<Rightarrow> error + IDBObjectStore" where
  "store_add r s =
     (case id' r of
        None \<Rightarrow> Inl (DOMException ''DataError'')
      | Some k \<Rightarrow>
          if map_of (records s) k \<noteq> None \<or> unique_violation s k r
          then Inl (DOMException ''ConstraintError'')
          else Inr (s\<lparr> records := store_insert k r (records s) \<rparr>))"

definition store_put :: "DataRecord \<Rightarrow> IDBObjectStore \<Rightarrow> error + IDBObjectStore" where
  "store_put r s =
     (case id' r of
        None \<Rightarrow> Inl (DOMException ''DataError'')
      | Some k \<Rightarrow>
          if unique_violation s k r then Inl (DOMException ''ConstraintError'')
          else Inr (s\<lparr> records := store_insert k r (records s) \<rparr>))"

definition store_delete :: "string \<Rightarrow> IDBObjectStore \<Rightarrow> IDBObjectStore" where
  "store_delete k s = s\<lparr> records := AList.delete k (records s) \<rparr>"

definition store_clear :: "IDBObjectStore \<Rightarrow> IDBObjectStore" where
  "store_clear s = s\<lparr> records := [] \<rparr>"

text \<open>The requests of one transaction take effect together or not at all.\<close>

fun store_add_all :: "DataRecord list \<Rightarrow> IDBObjectStore \<Rightarrow> error + IDBObjectStore" where
  "store_add_all [] s = Inr s"
| "store_add_all (r # rs) s =
     (case store_add r s of Inl e \<Rightarrow> Inl e | Inr s' \<Rightarrow> store_add_all rs s')"

section \<open>The local adapter (indexeddb-adapter.ts)\<close>

text \<open>
  Besides its database handle and device id the adapter reads the clock and
  the random source.  \<open>clock a n\<close> is what \<^verbatim>\<open>new Date().toISOString()\<close> returns in
  its \<open>n\<close>-th call of \<^verbatim>\<open>addMetadata\<close>, \<open>random_id a n\<close> what \<^verbatim>\<open>generateId()\<close> would
  return there, and \<open>calls\<close> counts those calls.
\<close>

record IndexedDBAdapter =
  db :: "IDBDatabase option"
  deviceId :: string
  clock :: "nat \<Rightarrow> string"
  random_id :: "nat \<Rightarrow> string"
  calls :: nat

text \<open>
  \<^verbatim>\<open>indexedDB.open\<close> hands over the database the browser holds under the name:
  none yet (the upgrade then creates the stores), or the one of an earlier
  session; or it fails.
\<close>

definition initialize :: "error + IDBDatabase option \<Rightarrow> IndexedDBAdapter \<Rightarrow> (error + unit) \<times> IndexedDBAdapter" where
  "initialize opened a =
     (case opened of
        Inl e \<Rightarrow> (Inl e, a)
      | Inr None \<Rightarrow> (Inr (), a\<lparr> db := Some (onupgradeneeded Map.empty) \<rparr>)
      | Inr (Some d) \<Rightarrow> (Inr (), a\<lparr> db := Some d \<rparr>))"

definition not_initialized :: error where
  "not_initialized = Error ''Database not initialized. Call initialize() first.''"

text \<open>\<^verbatim>\<open>ensureDb()\<close>, then \<^verbatim>\<open>db.transaction(table, mode).objectStore(table)\<close>.\<close>

definition objectStore :: "IndexedDBAdapter \<Rightarrow> string \<Rightarrow> error + IDBObjectStore" where
  "objectStore a table =
     (case db a of
        None \<Rightarrow> Inl not_initialized
      | Some d \<Rightarrow> (case d table of None \<Rightarrow> Inl (DOMException ''NotFoundError'') | Some s \<Rightarrow> Inr s))"

definition commit :: "IndexedDBAdapter \<Rightarrow> string \<Rightarrow> IDBObjectStore \<Rightarrow> IndexedDBAdapter" where
  "commit a table s = a\<lparr> db := map_option (\<lambda>d. d(table \<mapsto> s)) (db a) \<rparr>"

definition generateId :: "IndexedDBAdapter \<Rightarrow> string" where
  "generateId a = random_id a (calls a)"

definition addMetadata :: "IndexedDBAdapter \<Rightarrow> DataRecord \<Rightarrow> DataRecord \<times> IndexedDBAdapter" where
  "addMetadata a data =
     (let now = clock a (calls a) in
      (data\<lparr> id' := Some (str_or (id' data) (generateId a)),
             created_at := Some (str_or (created_at data) now),
             updated_at := Some now,
             version := Some (js_plus (num_or (version data) 0) 1),
             device_id := Some (deviceId a),
             sync_status := Some Pending,
             undefined_props := undefined_props data -
               {''id'', ''created_at'', ''updated_at'', ''_version'', ''_device_id'', ''_sync_status''} \<rparr>,
       a\<lparr> calls := Suc (calls a) \<rparr>))"

definition get :: "IndexedDBAdapter \<Rightarrow> string \<Rightarrow> string option \<Rightarrow> error + DataRecord option" where
  "get a table i =
     (case objectStore a table of
        Inl e \<Rightarrow> Inl e
      | Inr s \<Rightarrow> (case i of None \<Rightarrow> Inl (DOMException ''DataError'') | Some k \<Rightarrow> Inr (map_of (records s) k)))"

definition create :: "IndexedDBAdapter \<Rightarrow> string \<Rightarrow> DataRecord \<Rightarrow> (error + DataRecord) \<times> IndexedDBAdapter" where
  "create a table data =
     (if db a = None then (Inl not_initialized, a)
      else let (record, a1) = addMetadata a data in
        case objectStore a1 table of
          Inl e \<Rightarrow> (Inl e, a1)
        | Inr s \<Rightarrow> (case store_add record s of
                     Inl e \<Rightarrow> (Inl e, a1)
                   | Inr s' \<Rightarrow> (Inr record, commit a1 table s')))"

definition update :: "IndexedDBAdapter \<Rightarrow> string \<Rightarrow> string option \<Rightarrow> DataRecord \<Rightarrow> (error + DataRecord) \<times> IndexedDBAdapter" where
  "update a table i data =
     (case get a table i of
        Inl e \<Rightarrow> (Inl e, a)
      | Inr None \<Rightarrow> (Inl (Error (''Record with id '' @ template i @ '' not found in '' @ table)), a)
      | Inr (Some existing) \<Rightarrow>
          let (updated, a1) = addMetadata a (with_id i (spread existing data)) in
          case objectStore a1 table of
            Inl e \<Rightarrow> (Inl e, a1)
          | Inr s \<Rightarrow> (case store_put updated s of
                       Inl e \<Rightarrow> (Inl e, a1)
                     | Inr s' \<Rightarrow> (Inr updated, commit a1 table s')))"

definition delete :: "IndexedDBAdapter \<Rightarrow> string \<Rightarrow> string option \<Rightarrow> (error + unit) \<times> IndexedDBAdapter" where
  "delete a table i =
     (case objectStore a table of
        Inl e \<Rightarrow> (Inl e, a)
      | Inr s \<Rightarrow> (case i of
                   None \<Rightarrow> (Inl (DOMException ''DataError''), a)
                 | Some k \<Rightarrow> (Inr (), commit a table (store_delete k s))))"

text \<open>The request of \<^verbatim>\<open>query\<close>: through an index when the first filter names one.\<close>

definition query_request :: "QueryOptions \<Rightarrow> IDBObjectStore \<Rightarrow> error + DataRecord list" where
  "query_request options s =
     (case where' options of
        Some ((key, v) # rest) \<Rightarrow>
          if key \<in> set (map fst (indexes s)) then index_getAll key v s else Inr (getAll s)
      | _ \<Rightarrow> Inr (getAll s))"

definition order_cmp :: "host \<Rightarrow> string \<Rightarrow> sort_order \<Rightarrow> DataRecord \<Rightarrow> DataRecord \<Rightarrow> int" where
  "order_cmp js field ord a b =
     (let aVal = property a field; bVal = property b field in
      if js_lt js aVal bVal then (if ord = asc then - 1 else 1)
      else if js_lt js bVal aVal then (if ord = asc then 1 else - 1)
      else 0)"

text \<open>The \<^verbatim>\<open>onsuccess\<close> handler of \<^verbatim>\<open>query\<close>: filter, sort, offset, limit.\<close>

definition every_entry :: "(string \<times> jsval option) list \<Rightarrow> DataRecord \<Rightarrow> bool" where
  "every_entry w item = list_all (\<lambda>(key, v). property item key = v) w"

definition onsuccess :: "host \<Rightarrow> QueryOptions \<Rightarrow> DataRecord list \<Rightarrow> DataRecord list" where
  "onsuccess js options result =
     (let results1 = (case where' options of
                        None \<Rightarrow> result
                      | Some w \<Rightarrow> filter (every_entry w) result);
          results2 = (case orderBy options of
                        None \<Rightarrow> results1
                      | Some field \<Rightarrow>
                          if field = [] then results1
                          else Array_sort (order_cmp js field
                                 (case order' options of None \<Rightarrow> asc | Some ord \<Rightarrow> ord)) results1);
          results3 = (case offset options of
                        None \<Rightarrow> results2
                      | Some start \<Rightarrow> if start = 0 then results2 else Array_slice_from start results2)
      in case limit options of
           None \<Rightarrow> results3
         | Some n \<Rightarrow> if n = 0 then results3 else Array_slice_to n results3)"

definition query :: "host \<Rightarrow> IndexedDBAdapter \<Rightarrow> string \<Rightarrow> QueryOptions \<Rightarrow> error + DataRecord list" where
  "query js a table options =
     (case objectStore a table of
        Inl e \<Rightarrow> Inl e
      | Inr s \<Rightarrow> (case query_request options s of
                   Inl e \<Rightarrow> Inl e
                 | Inr result \<Rightarrow> Inr (onsuccess js options result)))"

definition no_options :: QueryOptions where
  "no_options = \<lparr> orderBy = None, order' = None, limit = None, offset = None, where' = None \<rparr>"

definition list :: "host \<Rightarrow> IndexedDBAdapter \<Rightarrow> string \<Rightarrow> QueryOptions option \<Rightarrow> error + DataRecord list" where
  "list js a table options =
     query js a table (case options of None \<Rightarrow> no_options | Some opts \<Rightarrow> opts)"

fun addMetadata_all :: "IndexedDBAdapter \<Rightarrow> DataRecord list \<Rightarrow> DataRecord list \<times> IndexedDBAdapter" where
  "addMetadata_all a [] = ([], a)"
| "addMetadata_all a (item # items) =
     (let (r, a1) = addMetadata a item; (rs, a2) = addMetadata_all a1 items in (r # rs, a2))"

definition bulkCreate :: "IndexedDBAdapter \<Rightarrow> string \<Rightarrow> DataRecord list \<Rightarrow> (error + DataRecord list) \<times> IndexedDBAdapter" where
  "bulkCreate a table data =
     (if db a = None then (Inl not_initialized, a)
      else let (recs, a1) = addMetadata_all a data in
        case objectStore a1 table of
          Inl e \<Rightarrow> (Inl e, a1)
        | Inr s \<Rightarrow> (case store_add_all recs s of
                     Inl e \<Rightarrow> (Inl e, a1)
                   | Inr s' \<Rightarrow> (Inr recs, commit a1 table s')))"

definition clear :: "IndexedDBAdapter \<Rightarrow> string \<Rightarrow> (error + unit) \<times> IndexedDBAdapter" where
  "clear a table =
     (case objectStore a table of
        Inl e \<Rightarrow> (Inl e, a)
      | Inr s \<Rightarrow> (Inr (), commit a table (store_clear s)))"

fun export_tables :: "host \<Rightarrow> IndexedDBAdapter \<Rightarrow> string list \<Rightarrow> error + (string \<times> DataRecord list) list" where
  "export_tables js a [] = Inr []"
| "export_tables js a (table # tables) =
     (case list js a table None of
        Inl e \<Rightarrow> Inl e
      | Inr rs \<Rightarrow> (case export_tables js a tables of
                    Inl e \<Rightarrow> Inl e
                  | Inr result \<Rightarrow> Inr ((table, rs) # result)))"

definition export :: "host \<Rightarrow> IndexedDBAdapter \<Rightarrow> string list option \<Rightarrow> error + (string \<times> DataRecord list) list" where
  "export js a tables =
     export_tables js a (case tables of None \<Rightarrow> TABLES | Some ts \<Rightarrow> ts)"

fun import' :: "IndexedDBAdapter \<Rightarrow> (string \<times> DataRecord list) list \<Rightarrow> (error + unit) \<times> IndexedDBAdapter" where
  "import' a [] = (Inr (), a)"
| "import' a ((table, recs) # entries) =
     (if table \<in> set TABLES then
        (case clear a table of
           (Inl e, a1) \<Rightarrow> (Inl e, a1)
         | (Inr u, a1) \<Rightarrow>
             if recs \<noteq> [] then
               (case bulkCreate a1 table recs of
                  (Inl e, a2) \<Rightarrow> (Inl e, a2)
                | (Inr created, a2) \<Rightarrow> import' a2 entries)
             else import' a1 entries)
      else import' a entries)"

section \<open>The synchronizer (sync-manager.ts)\<close>

text \<open>
  The synchronizer talks to the remote side through the adapter contract
  only.  \<open>'r\<close> is the state of the remote service; every call returns its
  outcome and the state the service is left in.
\<close>

record 'r IStorageAdapter =
  a_list :: "string \<Rightarrow> 'r \<Rightarrow> (error + DataRecord list) \<times> 'r"
  a_create :: "string \<Rightarrow> DataRecord \<Rightarrow> 'r \<Rightarrow> (error + DataRecord) \<times> 'r"
  a_update :: "string \<Rightarrow> string option \<Rightarrow> DataRecord \<Rightarrow> 'r \<Rightarrow> (error + DataRecord) \<times> 'r"
  a_delete :: "string \<Rightarrow> string option \<Rightarrow> 'r \<Rightarrow> (error + unit) \<times> 'r"

datatype SyncStrategy = local_wins | remote_wins | manual | newest_wins

datatype op_kind = op_create | op_update | op_delete

datatype resolution = res_local | res_remote | res_manual

record SyncOperation =
  op_id :: string
  table :: string
  operation :: op_kind
  data :: DataRecord
  timestamp :: string
  retries :: int

record ConflictResolution =
  c_record :: DataRecord
  c_local :: DataRecord
  c_remote :: DataRecord
  c_resolution :: resolution
  resolvedData :: "DataRecord option"

text \<open>
  The fields of the class, and what it reaches outside of itself: the state of
  the remote service, the \<^verbatim>\<open>localStorage\<close> item that holds the queue (and whether
  writing it fails for lack of space), and the clock: \<open>Date_now s n\<close> is the
  \<open>n\<close>-th reading, \<open>reads\<close> counts them.  The \<^verbatim>\<open>conflicts\<close> map keeps insertion
  order.
\<close>

record 'r SyncManager =
  isOnline :: bool
  isSyncing :: bool
  conflicts :: "(string \<times> ConflictResolution) list"
  pendingOperations :: "SyncOperation list"
  lastSyncTime :: "string option"
  localAdapter :: IndexedDBAdapter
  remoteAdapter :: "'r IStorageAdapter option"
  strategy :: SyncStrategy
  remote_service :: 'r
  pending_sync_operations :: "SyncOperation list option"
  quota_exceeded :: bool
  Date_now :: "nat \<Rightarrow> string"
  reads :: nat

definition loadPendingOperations :: "'r SyncManager \<Rightarrow> 'r SyncManager" where
  "loadPendingOperations s =
     (case pending_sync_operations s of
        None \<Rightarrow> s
      | Some saved \<Rightarrow> s\<lparr> pendingOperations := saved \<rparr>)"

definition savePendingOperations :: "'r SyncManager \<Rightarrow> (error + unit) \<times> 'r SyncManager" where
  "savePendingOperations s =
     (if quota_exceeded s then (Inl (DOMException ''QuotaExceededError''), s)
      else (Inr (), s\<lparr> pending_sync_operations := Some (pendingOperations s) \<rparr>))"

text \<open>The \<^verbatim>\<open>switch\<close> of the push loop: one queued operation against the remote.\<close>

definition replay :: "'r IStorageAdapter \<Rightarrow> SyncOperation \<Rightarrow> 'r \<Rightarrow> (error + unit) \<times> 'r" where
  "replay ra opn rs =
     (case operation opn of
        op_create \<Rightarrow>
          (case a_create ra (table opn) (data opn) rs of
             (Inl e, rs') \<Rightarrow> (Inl e, rs')
           | (Inr created, rs') \<Rightarrow> (Inr (), rs'))
      | op_update \<Rightarrow>
          (case a_update ra (table opn) (id' (data opn)) (data opn) rs of
             (Inl e, rs') \<Rightarrow> (Inl e, rs')
           | (Inr updated, rs') \<Rightarrow> (Inr (), rs'))
      | op_delete \<Rightarrow> a_delete ra (table opn) (id' (data opn)) rs)"

text \<open>
  The loop over the copied queue.  The copy shares its operation objects with
  the queue, so \<^verbatim>\<open>op.retries++\<close> is seen in the queue as well: the loop returns
  the operations as it leaves them, and \<^verbatim>\<open>successfulOps\<close>.
\<close>

fun replay_all :: "'r IStorageAdapter \<Rightarrow> SyncOperation list \<Rightarrow> 'r \<Rightarrow> (SyncOperation list \<times> string list) \<times> 'r" where
  "replay_all ra [] rs = (([], []), rs)"
| "replay_all ra (opn # ops) rs =
     (case replay ra opn rs of
        (Inr u, rs1) \<Rightarrow>
          (case replay_all ra ops rs1 of
             ((ops', successfulOps), rs2) \<Rightarrow> ((opn # ops', op_id opn # successfulOps), rs2))
      | (Inl e, rs1) \<Rightarrow>
          (let opn' = opn\<lparr> retries := retries opn + 1 \<rparr> in
           case replay_all ra ops rs1 of
             ((ops', successfulOps), rs2) \<Rightarrow>
               ((opn' # ops',
                 if retries opn' > 3 then op_id opn' # successfulOps else successfulOps), rs2)))"

definition processPendingOperations :: "'r SyncManager \<Rightarrow> (error + unit) \<times> 'r SyncManager" where
  "processPendingOperations s =
     (case remoteAdapter s of
        None \<Rightarrow> (Inr (), s)
      | Some ra \<Rightarrow>
          (case replay_all ra (pendingOperations s) (remote_service s) of
             ((ops, successfulOps), rs) \<Rightarrow>
               savePendingOperations
                 (s\<lparr> pendingOperations := filter (\<lambda>opn. op_id opn \<notin> set successfulOps) ops,
                     remote_service := rs \<rparr>)))"

text \<open>The time \<^verbatim>\<open>new Date(r.updated_at || r.created_at).getTime()\<close> of a record.\<close>

definition record_time :: "host \<Rightarrow> DataRecord \<Rightarrow> int option" where
  "record_time js r =
     (let fallback = (case created_at r of None \<Rightarrow> None | Some c \<Rightarrow> Date_getTime js c) in
      case updated_at r of
        None \<Rightarrow> fallback
      | Some u \<Rightarrow> if u = [] then fallback else Date_getTime js u)"

text \<open>\<^verbatim>\<open>a > b\<close> on times: false as soon as one of them is \<^verbatim>\<open>NaN\<close>.\<close>

definition time_gt :: "int option \<Rightarrow> int option \<Rightarrow> bool" where
  "time_gt a b = (case (a, b) of (Some x, Some y) \<Rightarrow> x > y | _ \<Rightarrow> False)"

definition resolveConflict :: "host \<Rightarrow> DataRecord \<Rightarrow> DataRecord \<Rightarrow> 'r SyncManager \<Rightarrow> resolution \<times> 'r SyncManager" where
  "resolveConflict js l r s =
     (if strategy s = local_wins then (res_local, s)
      else if strategy s = remote_wins then (res_remote, s)
      else if strategy s = newest_wins then
        (if time_gt (record_time js l) (record_time js r) then res_local else res_remote, s)
      else
        (let conflictId = template (id' l) @ ''_'' @ Date_now s (reads s) in
         (res_manual,
          s\<lparr> conflicts := AList.update conflictId
                 \<lparr> c_record = l, c_local = l, c_remote = r, c_resolution = res_manual,
                   resolvedData = None \<rparr> (conflicts s),
              reads := Suc (reads s) \<rparr>)))"

text \<open>
  The first loop of a table's pull, over the remote records.  \<open>ra\<close> is
  \<^verbatim>\<open>this.remoteAdapter\<close>, which the pass found set when it began.
\<close>

fun pull_remote :: "host \<Rightarrow> 'r IStorageAdapter \<Rightarrow> string \<Rightarrow> (string option \<rightharpoonup> DataRecord) \<Rightarrow> DataRecord list \<Rightarrow> 'r SyncManager \<Rightarrow> (error + unit) \<times> 'r SyncManager" where
  "pull_remote js ra tbl localMap [] s = (Inr (), s)"
| "pull_remote js ra tbl localMap (remoteRecord # rest) s =
     (case localMap (id' remoteRecord) of
        None \<Rightarrow>
          (case create (localAdapter s) tbl remoteRecord of
             (Inl e, a) \<Rightarrow> (Inl e, s\<lparr> localAdapter := a \<rparr>)
           | (Inr created, a) \<Rightarrow> pull_remote js ra tbl localMap rest (s\<lparr> localAdapter := a \<rparr>))
      | Some localRecord \<Rightarrow>
          (case resolveConflict js localRecord remoteRecord s of
             (res_remote, s1) \<Rightarrow>
               (case update (localAdapter s1) tbl (id' remoteRecord) remoteRecord of
                  (Inl e, a) \<Rightarrow> (Inl e, s1\<lparr> localAdapter := a \<rparr>)
                | (Inr updated, a) \<Rightarrow> pull_remote js ra tbl localMap rest (s1\<lparr> localAdapter := a \<rparr>))
           | (res_local, s1) \<Rightarrow>
               (case a_update ra tbl (id' localRecord) localRecord (remote_service s1) of
                  (Inl e, rs) \<Rightarrow> (Inl e, s1\<lparr> remote_service := rs \<rparr>)
                | (Inr updated, rs) \<Rightarrow> pull_remote js ra tbl localMap rest (s1\<lparr> remote_service := rs \<rparr>))
           | (res_manual, s1) \<Rightarrow> pull_remote js ra tbl localMap rest s1))"

text \<open>The second loop, over the local records read before the first loop.\<close>

fun pull_deletions :: "string \<Rightarrow> (string option \<rightharpoonup> DataRecord) \<Rightarrow> DataRecord list \<Rightarrow> IndexedDBAdapter \<Rightarrow> (error + unit) \<times> IndexedDBAdapter" where
  "pull_deletions tbl remoteMap [] a = (Inr (), a)"
| "pull_deletions tbl remoteMap (localRecord # rest) a =
     (if remoteMap (id' localRecord) = None \<and> sync_status localRecord = Some Synced then
        (case delete a tbl (id' localRecord) of
           (Inl e, a1) \<Rightarrow> (Inl e, a1)
         | (Inr u, a1) \<Rightarrow> pull_deletions tbl remoteMap rest a1)
      else pull_deletions tbl remoteMap rest a)"

text \<open>The body of the \<^verbatim>\<open>try\<close> for one table.\<close>

definition syncTable :: "host \<Rightarrow> 'r IStorageAdapter \<Rightarrow> string \<Rightarrow> 'r SyncManager \<Rightarrow> (error + unit) \<times> 'r SyncManager" where
  "syncTable js ra tbl s =
     (case a_list ra tbl (remote_service s) of
        (Inl e, rs) \<Rightarrow> (Inl e, s\<lparr> remote_service := rs \<rparr>)
      | (Inr remoteRecords, rs) \<Rightarrow>
          (let s1 = s\<lparr> remote_service := rs \<rparr> in
           case list js (localAdapter s1) tbl None of
             Inl e \<Rightarrow> (Inl e, s1)
           | Inr localRecords \<Rightarrow>
               (let localMap = Map_of (map (\<lambda>r. (id' r, r)) localRecords);
                    remoteMap = Map_of (map (\<lambda>r. (id' r, r)) remoteRecords) in
                case pull_remote js ra tbl localMap remoteRecords s1 of
                  (Inl e, s2) \<Rightarrow> (Inl e, s2)
                | (Inr u, s2) \<Rightarrow>
                    (case pull_deletions tbl remoteMap localRecords (localAdapter s2) of
                       (res, a) \<Rightarrow> (res, s2\<lparr> localAdapter := a \<rparr>)))))"

text \<open>A table that fails is logged and the next one is taken up.\<close>

definition syncFromRemote :: "host \<Rightarrow> 'r SyncManager \<Rightarrow> 'r SyncManager" where
  "syncFromRemote js s =
     (case remoteAdapter s of
        None \<Rightarrow> s
      | Some ra \<Rightarrow> fold (\<lambda>tbl s. snd (syncTable js ra tbl s)) TABLES s)"

text \<open>\<^verbatim>\<open>triggerSync\<close>: the guard, the \<^verbatim>\<open>try\<close> block, and the \<^verbatim>\<open>finally\<close> clause.\<close>

definition sync_refused :: "'r SyncManager \<Rightarrow> bool" where
  "sync_refused s = (isSyncing s \<or> remoteAdapter s = None \<or> \<not> isOnline s)"

definition sync_pass :: "host \<Rightarrow> 'r SyncManager \<Rightarrow> (error + unit) \<times> 'r SyncManager" where
  "sync_pass js s =
     (case processPendingOperations s of
        (Inl e, s1) \<Rightarrow> (Inl e, s1)
      | (Inr u, s1) \<Rightarrow>
          (let s2 = syncFromRemote js s1 in
           (Inr (), s2\<lparr> lastSyncTime := Some (Date_now s2 (reads s2)), reads := Suc (reads s2) \<rparr>)))"

definition triggerSync :: "host \<Rightarrow> 'r SyncManager \<Rightarrow> 'r SyncManager" where
  "triggerSync js s =
     (if sync_refused s then s
      else (snd (sync_pass js (s\<lparr> isSyncing := True \<rparr>)))\<lparr> isSyncing := False \<rparr>)"

definition resolveConflictManually :: "string \<Rightarrow> resolution \<Rightarrow> DataRecord option \<Rightarrow> 'r SyncManager \<Rightarrow> (error + unit) \<times> 'r SyncManager" where
  "resolveConflictManually conflictId res customData s =
     (case map_of (conflicts s) conflictId of
        None \<Rightarrow> (Inl (Error (''Conflict '' @ conflictId @ '' not found'')), s)
      | Some conflict \<Rightarrow>
          (let resolved = (case customData of
                             Some d \<Rightarrow> d
                           | None \<Rightarrow> if res = res_local then c_local conflict else c_remote conflict) in
           case find (\<lambda>c. id' (c_record c) = id' (c_record conflict)) (map snd (conflicts s)) of
             None \<Rightarrow> (Inr (), s)
           | Some tableMatch \<Rightarrow>
               (case update (localAdapter s) ''unknown_table'' (id' (c_record conflict)) resolved of
                  (Inl e, a) \<Rightarrow> (Inl e, s\<lparr> localAdapter := a \<rparr>)
                | (Inr updated, a) \<Rightarrow>
                    (let s1 = s\<lparr> localAdapter := a \<rparr> in
                     case remoteAdapter s1 of
                       None \<Rightarrow> (Inr (), s1\<lparr> conflicts := AList.delete conflictId (conflicts s1) \<rparr>)
                     | Some ra \<Rightarrow>
                         (case a_update ra ''unknown_table'' (id' (c_record conflict)) resolved
                                 (remote_service s1) of
                            (Inl e, rs) \<Rightarrow> (Inl e, s1\<lparr> remote_service := rs \<rparr>)
                          | (Inr updated', rs) \<Rightarrow>
                              (Inr (), s1\<lparr> remote_service := rs,
                                          conflicts := AList.delete conflictId (conflicts s1) \<rparr>))))))"

text \<open>
  Calls of \<^verbatim>\<open>triggerSync\<close> while a pass is suspended at an \<^verbatim>\<open>await\<close>.  A call
  runs the guard and sets the flag in one piece; the pass it starts settles
  later, in its \<^verbatim>\<open>finally\<close> clause.  The first component counts the passes
  that have started and not yet settled.
\<close>

datatype 'r event =
    Trigger
  | Settle
  | Online
  | Offline
  | SetRemoteAdapter "'r IStorageAdapter option"
  | SetStrategy SyncStrategy

definition start_pass :: "nat \<times> 'r SyncManager \<Rightarrow> nat \<times> 'r SyncManager" where
  "start_pass c =
     (case c of (n, s) \<Rightarrow> if sync_refused s then (n, s) else (Suc n, s\<lparr> isSyncing := True \<rparr>))"

definition settle_pass :: "host \<Rightarrow> nat \<times> 'r SyncManager \<Rightarrow> nat \<times> 'r SyncManager" where
  "settle_pass js c =
     (case c of (n, s) \<Rightarrow>
        if n = 0 then (n, s) else (n - 1, (snd (sync_pass js s))\<lparr> isSyncing := False \<rparr>))"

fun fire :: "host \<Rightarrow> 'r event \<Rightarrow> nat \<times> 'r SyncManager \<Rightarrow> nat \<times> 'r SyncManager" where
  "fire js Trigger (n, s) = start_pass (n, s)"
| "fire js Settle (n, s) = settle_pass js (n, s)"
| "fire js Online (n, s) = start_pass (n, s\<lparr> isOnline := True \<rparr>)"
| "fire js Offline (n, s) = (n, s\<lparr> isOnline := False \<rparr>)"
| "fire js (SetRemoteAdapter adapter) (n, s) = (n, s\<lparr> remoteAdapter := adapter \<rparr>)"
| "fire js (SetStrategy st) (n, s) = (n, s\<lparr> strategy := st \<rparr>)"

definition run :: "host \<Rightarrow> 'r event list \<Rightarrow> nat \<times> 'r SyncManager \<Rightarrow> nat \<times> 'r SyncManager" where
  "run js evs c = fold (fire js) evs c"

section \<open>The storage manager (storage-manager.ts)\<close>

datatype StorageProvider = provider_local | provider_supabase | provider_firebase | provider_custom

record StorageConfig =
  provider :: StorageProvider
  autoSync :: bool
  syncInterval :: "int option"
  syncStrategy :: SyncStrategy
  supabase :: "(string \<times> string) option"

text \<open>
  The manager's local adapter is the object its synchronizer holds, so the
  model keeps it there.  \<open>storage_config\<close> is the \<^verbatim>\<open>localStorage\<close> item of the
  configuration, \<open>timer\<close> the handle of the auto-sync interval.
\<close>

record 'r StorageManager =
  config :: StorageConfig
  manager_remoteAdapter :: "'r IStorageAdapter option"
  syncManager :: "'r SyncManager"
  timer :: "nat option"
  storage_config :: "StorageConfig option"

definition sync :: "host \<Rightarrow> 'r StorageManager \<Rightarrow> (error + unit) \<times> 'r StorageManager" where
  "sync js m =
     (case manager_remoteAdapter m of
        None \<Rightarrow> (Inl (Error ''Remote adapter not configured. Enable cloud sync first.''), m)
      | Some ra \<Rightarrow> (Inr (), m\<lparr> syncManager := triggerSync js (syncManager m) \<rparr>))"

section \<open>The push phase over several passes\<close>

text \<open>Whether the \<open>k\<close>-th operation of the queue fails against the remote when the
  push loop reaches it, the operations before it having been replayed.\<close>

definition replay_failed :: "'r IStorageAdapter \<Rightarrow> SyncOperation list \<Rightarrow> 'r \<Rightarrow> nat \<Rightarrow> bool" where
  "replay_failed ra ops rs k =
     isl (fst (replay ra (ops ! k) (snd (replay_all ra (take k ops) rs))))"

text \<open>The state after \<open>n\<close> push phases in a row.\<close>

definition push_passes :: "nat \<Rightarrow> 'r SyncManager \<Rightarrow> 'r SyncManager" where
  "push_passes n s = ((\<lambda>s. snd (processPendingOperations s)) ^^ n) s"

section \<open>The expected result of a query\<close>

text \<open>
  The records of a store that satisfy every entry of the filter, in key order or in the
  requested order; \<open>first_filter_plain\<close> holds when the first entry of the filter is
  not looked up in an index with a value that is no key.
\<close>

definition zero_or_absent :: "int option \<Rightarrow> bool" where
  "zero_or_absent n = (n = None \<or> n = Some 0)"

definition first_filter_plain :: "QueryOptions \<Rightarrow> IDBObjectStore \<Rightarrow> bool" where
  "first_filter_plain options s =
     (case where' options of
        Some ((key, v) # rest) \<Rightarrow>
          key \<in> set (map fst (indexes s)) \<longrightarrow> (case v of None \<Rightarrow> False | Some w \<Rightarrow> valid_key w)
      | _ \<Rightarrow> True)"

definition matching :: "host \<Rightarrow> QueryOptions \<Rightarrow> IDBObjectStore \<Rightarrow> DataRecord list" where
  "matching js options s =
     (let found = filter (\<lambda>item. case where' options of None \<Rightarrow> True | Some w \<Rightarrow> every_entry w item)
                    (getAll s) in
      case orderBy options of
        None \<Rightarrow> found
      | Some field \<Rightarrow>
          if field = [] then found
          else Array_sort (order_cmp js field (case order' options of None \<Rightarrow> asc | Some ord \<Rightarrow> ord))
                 found)"

section \<open>Invariants of the local store\<close>

text \<open>
  An object store is well formed when its keys are strictly increasing and
  every record sits under its own \<^verbatim>\<open>id\<close>; a database, when each of its stores is.
\<close>

definition wf_store :: "IDBObjectStore \<Rightarrow> bool" where
  "wf_store s =
     (sorted_wrt (<) (map fst (records s)) \<and> list_all (\<lambda>(k, r). id' r = Some k) (records s))"

definition wf_db :: "IndexedDBAdapter \<Rightarrow> bool" where
  "wf_db a = (\<forall>d t s. db a = Some d \<longrightarrow> d t = Some s \<longrightarrow> wf_store s)"

text \<open>Every record of every store is marked \<^verbatim>\<open>pending\<close>.\<close>

definition all_pending :: "IndexedDBAdapter \<Rightarrow> bool" where
  "all_pending a =
     (\<forall>d t s k r. db a = Some d \<longrightarrow> d t = Some s \<longrightarrow> (k, r) \<in> set (records s) \<longrightarrow>
        sync_status r = Some Pending)"

text \<open>The store \<open>t\<close> holds a record under the key \<open>k\<close>, and it is not marked
  \<^verbatim>\<open>synced\<close>.\<close>

definition unsynced_at :: "IndexedDBAdapter \<Rightarrow> string \<Rightarrow> string \<Rightarrow> bool" where
  "unsynced_at a t k =
     (\<exists>r. get a t (Some k) = Inr (Some r) \<and> sync_status r \<noteq> Some Synced)"

text \<open>
  What a write of the adapter does to the database: nothing (when it fails),
  or one record, stamped \<^verbatim>\<open>pending\<close>, placed under its own id in one store.
\<close>

definition stamped_write :: "IndexedDBAdapter \<Rightarrow> IndexedDBAdapter \<Rightarrow> bool" where
  "stamped_write a a' =
     (db a' = db a \<or>
      (\<exists>d t s k r. db a = Some d \<and> d t = Some s \<and> id' r = Some k \<and> sync_status r = Some Pending \<and>
         db a' = Some (d(t \<mapsto> s\<lparr> records := store_insert k r (records s) \<rparr>))))"

text \<open>The order of two timestamps, as the host reads them.\<close>

definition time_le :: "host \<Rightarrow> string \<Rightarrow> string \<Rightarrow> bool" where
  "time_le js u v =
     (case (Date_getTime js u, Date_getTime js v) of (Some x, Some y) \<Rightarrow> x \<le> y | _ \<Rightarrow> False)"

section \<open>Concrete states for the scenarios\<close>

text \<open>A host that compares numbers with numbers and strings with strings, and
  reads two dates.\<close>

definition example_lt :: "jsval option \<Rightarrow> jsval option \<Rightarrow> bool" where
  "example_lt a b =
     (case (a, b) of
        (Some (JNum x), Some (JNum y)) \<Rightarrow> x < y
      | (Some (JStr x), Some (JStr y)) \<Rightarrow> x < y
      | _ \<Rightarrow> False)"

definition example_getTime :: "string \<Rightarrow> int option" where
  "example_getTime s =
     (if s = ''2024-01-01T00:00:00.000Z'' then Some 1704067200000
      else if s = ''2024-01-02T00:00:00.000Z'' then Some 1704153600000
      else None)"

definition example_host :: host where
  "example_host = \<lparr> js_lt = example_lt, Date_getTime = example_getTime \<rparr>"

text \<open>An adapter just initialized on a browser without a database.  Its first
  write happens on the first of January, the later ones on the second.\<close>

definition fresh_adapter :: IndexedDBAdapter where
  "fresh_adapter =
     \<lparr> db = Some (onupgradeneeded Map.empty), deviceId = ''device_1'',
       clock = (\<lambda>n. if n = 0 then ''2024-01-01T00:00:00.000Z'' else ''2024-01-02T00:00:00.000Z''),
       random_id = (\<lambda>n. ''id'' @ replicate n CHR ''x''), calls = 0 \<rparr>"

definition new_client :: "string \<Rightarrow> DataRecord" where
  "new_client name =
     \<lparr> id' = None, created_at = None, updated_at = None, version = None, device_id = None,
       sync_status = None, attrs = [''name'' \<mapsto> JStr name], undefined_props = {} \<rparr>"

definition three_clients :: IndexedDBAdapter where
  "three_clients =
     fold (\<lambda>name a. snd (create a ''clients'' (new_client name)))
       [''Ana'', ''Bia'', ''Caio''] fresh_adapter"

definition five_clients :: IndexedDBAdapter where
  "five_clients =
     fold (\<lambda>name a. snd (create a ''clients'' (new_client name)))
       [''Ana'', ''Bia'', ''Caio'', ''Duda'', ''Eva''] fresh_adapter"

definition local_only_sync :: "unit SyncManager" where
  "local_only_sync =
     \<lparr> isOnline = True, isSyncing = False, conflicts = [], pendingOperations = [],
       lastSyncTime = None, localAdapter = five_clients, remoteAdapter = None,
       strategy = newest_wins, remote_service = (), pending_sync_operations = None,
       quota_exceeded = False, Date_now = (\<lambda>n. ''1704153600000''), reads = 0 \<rparr>"

definition local_only_manager :: "unit StorageManager" where
  "local_only_manager =
     \<lparr> config = \<lparr> provider = provider_local, autoSync = False, syncInterval = Some 300000,
                  syncStrategy = newest_wins, supabase = None \<rparr>,
       manager_remoteAdapter = None, syncManager = local_only_sync, timer = None,
       storage_config = None \<rparr>"

text \<open>A remote that holds nothing and accepts every write, and one whose every
  call fails.\<close>

definition accepting_remote :: "unit IStorageAdapter" where
  "accepting_remote =
     \<lparr> a_list = (\<lambda>tbl rs. (Inr [], rs)),
       a_create = (\<lambda>tbl d rs. (Inr d, rs)),
       a_update = (\<lambda>tbl i d rs. (Inr d, rs)),
       a_delete = (\<lambda>tbl i rs. (Inr (), rs)) \<rparr>"

definition failing_remote :: "unit IStorageAdapter" where
  "failing_remote =
     \<lparr> a_list = (\<lambda>tbl rs. (Inl (Error ''Failed to fetch''), rs)),
       a_create = (\<lambda>tbl d rs. (Inl (Error ''Failed to fetch''), rs)),
       a_update = (\<lambda>tbl i d rs. (Inl (Error ''Failed to fetch''), rs)),
       a_delete = (\<lambda>tbl i rs. (Inl (Error ''Failed to fetch''), rs)) \<rparr>"

text \<open>One client, held locally at version 5 and remotely at version 1.\<close>

definition client_v5 :: DataRecord where
  "client_v5 =
     \<lparr> id' = Some ''c1'', created_at = Some ''2024-01-01T00:00:00.000Z'',
       updated_at = Some ''2024-01-02T00:00:00.000Z'', version = Some 5,
       device_id = Some ''device_1'', sync_status = Some Pending,
       attrs = [''name'' \<mapsto> JStr ''Ana''], undefined_props = {} \<rparr>"

definition client_v1_remote :: DataRecord where
  "client_v1_remote =
     \<lparr> id' = Some ''c1'', created_at = Some ''2024-01-01T00:00:00.000Z'',
       updated_at = Some ''2024-01-01T00:00:00.000Z'', version = Some 1,
       device_id = Some ''device_2'', sync_status = Some Synced,
       attrs = [''name'' \<mapsto> JStr ''Ana Maria''], undefined_props = {} \<rparr>"

definition one_client_db :: IDBDatabase where
  "one_client_db =
     (onupgradeneeded Map.empty)
       (''clients'' \<mapsto> \<lparr> records = [(''c1'', client_v5)], indexes = table_indexes ''clients'' \<rparr>)"

definition one_client :: IndexedDBAdapter where
  "one_client = fresh_adapter\<lparr> db := Some one_client_db, calls := 5 \<rparr>"

definition online_sync :: "unit SyncManager" where
  "online_sync =
     \<lparr> isOnline = True, isSyncing = False, conflicts = [], pendingOperations = [],
       lastSyncTime = None, localAdapter = one_client, remoteAdapter = Some accepting_remote,
       strategy = newest_wins, remote_service = (), pending_sync_operations = None,
       quota_exceeded = False, Date_now = (\<lambda>n. ''1704153600000''), reads = 0 \<rparr>"

definition the_conflict :: ConflictResolution where
  "the_conflict =
     \<lparr> c_record = client_v5, c_local = client_v5, c_remote = client_v1_remote,
       c_resolution = res_manual, resolvedData = None \<rparr>"

definition conflicted_sync :: "unit SyncManager" where
  "conflicted_sync =
     online_sync\<lparr> strategy := manual, conflicts := [(''c1_1704153600000'', the_conflict)] \<rparr>"

text \<open>The adapter after creating the client Ana, and a patch that renames her.\<close>

definition ana_adapter :: IndexedDBAdapter where
  "ana_adapter = snd (create fresh_adapter ''clients'' (new_client ''Ana''))"

definition rename_patch :: DataRecord where
  "rename_patch =
     \<lparr> id' = None, created_at = None, updated_at = None, version = None, device_id = None,
       sync_status = None, attrs = [''name'' \<mapsto> JStr ''Ana Maria''], undefined_props = {} \<rparr>"

text \<open>
  A patch that names \<^verbatim>\<open>_version\<close> without giving it a value; the adapter after
  creating a client from data at version \<open>2^53 - 1\<close>; and the adapter after creating
  a client when the clock of the device is set back a day after the first write.
\<close>

definition unversioned_patch :: DataRecord where
  "unversioned_patch = rename_patch\<lparr> undefined_props := {''_version''} \<rparr>"

definition last_version_adapter :: IndexedDBAdapter where
  "last_version_adapter =
     snd (create fresh_adapter ''clients'' ((new_client ''Ana'')\<lparr> version := Some 9007199254740991 \<rparr>))"

definition set_back_adapter :: IndexedDBAdapter where
  "set_back_adapter =
     snd (create
       (fresh_adapter\<lparr> clock := (\<lambda>n. if n = 0 then ''2024-01-02T00:00:00.000Z''
                                       else ''2024-01-01T00:00:00.000Z'') \<rparr>)
       ''clients'' (new_client ''Ana''))"

text \<open>A remote that is down for the table of clients and accepts the rest; a
  queue with a client that has failed three times and a product not yet tried.\<close>

definition clients_down :: "unit IStorageAdapter" where
  "clients_down =
     \<lparr> a_list = (\<lambda>tbl rs. (Inr [], rs)),
       a_create = (\<lambda>tbl d rs. if tbl = ''clients'' then (Inl (Error ''Failed to fetch''), rs)
                               else (Inr d, rs)),
       a_update = (\<lambda>tbl i d rs. (Inr d, rs)),
       a_delete = (\<lambda>tbl i rs. (Inr (), rs)) \<rparr>"

definition push_client :: SyncOperation where
  "push_client =
     \<lparr> op_id = ''op1'', table = ''clients'', operation = op_create, data = client_v5,
       timestamp = ''2024-01-02T00:00:00.000Z'', retries = 3 \<rparr>"

definition push_product :: SyncOperation where
  "push_product =
     \<lparr> op_id = ''op2'', table = ''products'', operation = op_create, data = new_client ''Mesa'',
       timestamp = ''2024-01-02T00:00:00.000Z'', retries = 0 \<rparr>"

definition queued_sync :: "unit SyncManager" where
  "queued_sync =
     online_sync\<lparr> remoteAdapter := Some clients_down,
                  pendingOperations := [push_client, push_product] \<rparr>"

definition bia_options :: QueryOptions where
  "bia_options = no_options\<lparr> where' := Some [(''name'', Some (JStr ''Bia''))] \<rparr>"

section \<open>Properties\<close>

subsection \<open>Manual sync without a remote\<close>

text \<open>
  Claim C7.  \<^verbatim>\<open>sync()\<close> on a manager that has no remote adapter fails with the
  error "Remote adapter not configured. Enable cloud sync first." and leaves
  the whole manager as it was: in particular the local database, the queue of
  pending operations (in memory and in \<^verbatim>\<open>localStorage\<close>) and the configuration.
\<close>

theorem sync_without_remote_fails_unchanged:
  assumes "manager_remoteAdapter m = None"
  shows "fst (sync js m) = Inl (Error ''Remote adapter not configured. Enable cloud sync first.'')
       \<and> snd (sync js m) = m
       \<and> db (localAdapter (syncManager (snd (sync js m)))) = db (localAdapter (syncManager m))
       \<and> pendingOperations (syncManager (snd (sync js m))) = pendingOperations (syncManager m)
       \<and> pending_sync_operations (syncManager (snd (sync js m))) = pending_sync_operations (syncManager m)
       \<and> config (snd (sync js m)) = config m"
  using assms by (simp add: sync_def)

theorem sync_without_remote_witness:
  "manager_remoteAdapter local_only_manager = None
   \<and> fst (sync example_host local_only_manager) =
       Inl (Error ''Remote adapter not configured. Enable cloud sync first.'')
   \<and> snd (sync example_host local_only_manager) = local_only_manager"
  using sync_without_remote_fails_unchanged [of local_only_manager example_host]
  by (simp add: local_only_manager_def)

subsection \<open>Paging in the local adapter\<close>

lemma insert_by_ties: "insert_by (\<lambda>a b. 0) x xs = x # xs"
  by (cases xs) simp_all

lemma Array_sort_ties: "Array_sort (\<lambda>a b. 0) xs = xs"
  by (induction xs) (simp_all add: Array_sort_def insert_by_ties)

lemma Array_sort_set: "set (Array_sort cmp xs) = set xs \<and> length (Array_sort cmp xs) = length xs"
proof -
  have ins: "set (insert_by cmp x ys) = insert x (set ys) \<and> length (insert_by cmp x ys) = Suc (length ys)"
    for x ys
    by (induction ys) auto
  show ?thesis
    by (induction xs) (simp_all add: Array_sort_def ins)
qed

lemma onsuccess_limit_zero:
  "onsuccess js (opts\<lparr> limit := Some 0 \<rparr>) rs = onsuccess js (opts\<lparr> limit := None \<rparr>) rs"
  by (simp add: onsuccess_def Let_def cong: option.case_cong if_cong)

lemma onsuccess_offset_zero:
  "onsuccess js (opts\<lparr> offset := Some 0 \<rparr>) rs = onsuccess js (opts\<lparr> offset := None \<rparr>) rs"
  by (simp add: onsuccess_def Let_def cong: option.case_cong if_cong)

lemma query_request_limit: "query_request (opts\<lparr> limit := l \<rparr>) s = query_request opts s"
  by (simp add: query_request_def)

lemma query_request_offset: "query_request (opts\<lparr> offset := l \<rparr>) s = query_request opts s"
  by (simp add: query_request_def)

lemma query_limit_zero:
  "query js a t (opts\<lparr> limit := Some 0 \<rparr>) = query js a t (opts\<lparr> limit := None \<rparr>)"
  by (simp add: query_def query_request_limit onsuccess_limit_zero cong: sum.case_cong)

lemma query_offset_zero:
  "query js a t (opts\<lparr> offset := Some 0 \<rparr>) = query js a t (opts\<lparr> offset := None \<rparr>)"
  by (simp add: query_def query_request_offset onsuccess_offset_zero cong: sum.case_cong)

lemma slices_positive:
  "0 < k \<Longrightarrow> 0 < n \<Longrightarrow> Array_slice_to n (Array_slice_from k xs) = take (nat n) (drop (nat k) xs)"
  by (auto simp: Array_slice_to_def Array_slice_from_def slice_index_def Let_def min_def max_def)

lemma filter_first_entry:
  "filter (every_entry ((key, v) # rest)) (filter (\<lambda>r. property r key = v) xs) =
   filter (every_entry ((key, v) # rest)) xs"
  by (induction xs) (auto simp: every_entry_def)

lemma query_request_plain:
  assumes "first_filter_plain opts s"
  shows "\<exists>rs. query_request opts s = Inr rs \<and>
           (case where' opts of None \<Rightarrow> rs | Some w \<Rightarrow> filter (every_entry w) rs) =
           filter (\<lambda>item. case where' opts of None \<Rightarrow> True | Some w \<Rightarrow> every_entry w item) (getAll s)"
proof (cases "where' opts")
  case None
  then show ?thesis by (simp add: query_request_def)
next
  case (Some w)
  show ?thesis
  proof (cases w)
    case Nil
    with Some show ?thesis by (simp add: query_request_def)
  next
    case (Cons e rest)
    obtain key v where e: "e = (key, v)" by (cases e)
    show ?thesis
    proof (cases "key \<in> set (map fst (indexes s))")
      case False
      with Some Cons e show ?thesis by (simp add: query_request_def)
    next
      case True
      with assms Some Cons e obtain x where x: "v = Some x" "valid_key x"
        by (cases v) (auto simp: first_filter_plain_def)
      then have "x \<noteq> JNull" by auto
      with x True Some Cons e show ?thesis
        by (auto simp: query_request_def index_getAll_def every_entry_def intro!: filter_cong)
    qed
  qed
qed

lemma query_plain:
  assumes "objectStore a t = Inr s" and "first_filter_plain opts s"
  shows "query js a t opts =
     Inr (let base = matching js opts s;
              paged = (case offset opts of
                         None \<Rightarrow> base
                       | Some start \<Rightarrow> if start = 0 then base else Array_slice_from start base)
          in case limit opts of
               None \<Rightarrow> paged
             | Some n \<Rightarrow> if n = 0 then paged else Array_slice_to n paged)"
proof -
  from query_request_plain [OF assms(2)] obtain rs where
    rs: "query_request opts s = Inr rs"
    "(case where' opts of None \<Rightarrow> rs | Some w \<Rightarrow> filter (every_entry w) rs) =
       filter (\<lambda>item. case where' opts of None \<Rightarrow> True | Some w \<Rightarrow> every_entry w item) (getAll s)"
    by blast
  show ?thesis
    using assms(1) rs by (simp add: query_def onsuccess_def matching_def Let_def)
qed

lemma onsuccess_paged:
  "onsuccess js opts rs =
     (let found = onsuccess js (opts\<lparr> offset := None, limit := None \<rparr>) rs;
          paged = (case offset opts of
                     None \<Rightarrow> found
                   | Some start \<Rightarrow> if start = 0 then found else Array_slice_from start found)
      in case limit opts of
           None \<Rightarrow> paged
         | Some n \<Rightarrow> if n = 0 then paged else Array_slice_to n paged)"
  by (cases "offset opts"; cases "limit opts"; cases "orderBy opts"; cases "order' opts";
      cases "where' opts"; simp add: onsuccess_def Let_def)

lemma query_paged:
  assumes "query js a t (opts\<lparr> offset := None, limit := None \<rparr>) = Inr found"
  shows "query js a t opts =
     Inr (let paged = (case offset opts of
                         None \<Rightarrow> found
                       | Some start \<Rightarrow> if start = 0 then found else Array_slice_from start found)
          in case limit opts of
               None \<Rightarrow> paged
             | Some n \<Rightarrow> if n = 0 then paged else Array_slice_to n paged)"
proof -
  from assms obtain s rs where s: "objectStore a t = Inr s" and rs: "query_request opts s = Inr rs"
    and f: "found = onsuccess js (opts\<lparr> offset := None, limit := None \<rparr>) rs"
    by (auto simp: query_def query_request_limit query_request_offset split: sum.splits)
  show ?thesis
    unfolding f using s rs by (simp add: query_def onsuccess_paged [of js opts rs] Let_def)
qed

lemma query_paged_error:
  assumes "query js a t (opts\<lparr> offset := None, limit := None \<rparr>) = Inl e"
  shows "query js a t opts = Inl e"
  using assms
  by (auto simp: query_def query_request_limit query_request_offset split: sum.splits)

lemma first_filter_plain_paging:
  "first_filter_plain (opts\<lparr> offset := k, limit := n \<rparr>) s = first_filter_plain opts s"
  by (simp add: first_filter_plain_def)

lemma matching_paging:
  "matching js (opts\<lparr> offset := k, limit := n \<rparr>) s = matching js opts s"
  by (cases "orderBy opts") (simp_all add: matching_def Let_def cong del: if_weak_cong)

lemma query_all_matching:
  assumes "objectStore a t = Inr s" and "first_filter_plain opts s"
  shows "query js a t (opts\<lparr> offset := None, limit := None \<rparr>) = Inr (matching js opts s)"
  using query_plain [of a t s "opts\<lparr> offset := None, limit := None \<rparr>" js] assms
  by (simp add: first_filter_plain_paging matching_paging)

text \<open>
  Claim C10.  Let \<open>found\<close> be what \<^verbatim>\<open>query\<close> returns for the options without
  offset and limit.  With limit and offset each absent or 0, \<^verbatim>\<open>query\<close> returns
  \<open>found\<close> whole: a limit of 0 does not give an empty list and an offset of 0
  skips nothing.  An offset other than 0 alone drops a prefix, a limit other
  than 0 alone keeps a prefix, and with both the offset is applied first and
  the limit to what remains; for positive values that is \<open>take n (drop k found)\<close>.
  When the store exists and the first filter, if it goes through an index,
  gives it a valid key, \<open>found\<close> is every record of the store that passes all
  the filters, in the order asked for.  \<^verbatim>\<open>list\<close> with options is \<^verbatim>\<open>query\<close>, and
  without options it returns the whole store.  A limit or an offset of 0 gives
  the same answer as leaving the option out.
\<close>

theorem query_zero_limit_offset:
  "(\<forall>found. query js a t (opts\<lparr> offset := None, limit := None \<rparr>) = Inr found \<longrightarrow>
      (zero_or_absent (offset opts) \<and> zero_or_absent (limit opts) \<longrightarrow>
         query js a t opts = Inr found)
    \<and> (\<forall>k. offset opts = Some k \<and> k \<noteq> 0 \<and> zero_or_absent (limit opts) \<longrightarrow>
         query js a t opts = Inr (Array_slice_from k found))
    \<and> (\<forall>n. zero_or_absent (offset opts) \<and> limit opts = Some n \<and> n \<noteq> 0 \<longrightarrow>
         query js a t opts = Inr (Array_slice_to n found))
    \<and> (\<forall>k n. offset opts = Some k \<and> k \<noteq> 0 \<and> limit opts = Some n \<and> n \<noteq> 0 \<longrightarrow>
         query js a t opts = Inr (Array_slice_to n (Array_slice_from k found)))
    \<and> (\<forall>k n. offset opts = Some k \<and> 0 < k \<and> limit opts = Some n \<and> 0 < n \<longrightarrow>
         query js a t opts = Inr (take (nat n) (drop (nat k) found))))
   \<and> (\<forall>e. query js a t (opts\<lparr> offset := None, limit := None \<rparr>) = Inl e \<longrightarrow>
         query js a t opts = Inl e)
   \<and> (\<forall>s. objectStore a t = Inr s \<and> first_filter_plain opts s \<longrightarrow>
         query js a t (opts\<lparr> offset := None, limit := None \<rparr>) = Inr (matching js opts s))
   \<and> (\<forall>s. objectStore a t = Inr s \<longrightarrow> list js a t None = Inr (getAll s))
   \<and> list js a t (Some opts) = query js a t opts
   \<and> query js a t (opts\<lparr> limit := Some 0 \<rparr>) = query js a t (opts\<lparr> limit := None \<rparr>)
   \<and> query js a t (opts\<lparr> offset := Some 0 \<rparr>) = query js a t (opts\<lparr> offset := None \<rparr>)"
proof -
  have paged: "\<forall>found. query js a t (opts\<lparr> offset := None, limit := None \<rparr>) = Inr found \<longrightarrow>
      (zero_or_absent (offset opts) \<and> zero_or_absent (limit opts) \<longrightarrow>
         query js a t opts = Inr found)
    \<and> (\<forall>k. offset opts = Some k \<and> k \<noteq> 0 \<and> zero_or_absent (limit opts) \<longrightarrow>
         query js a t opts = Inr (Array_slice_from k found))
    \<and> (\<forall>n. zero_or_absent (offset opts) \<and> limit opts = Some n \<and> n \<noteq> 0 \<longrightarrow>
         query js a t opts = Inr (Array_slice_to n found))
    \<and> (\<forall>k n. offset opts = Some k \<and> k \<noteq> 0 \<and> limit opts = Some n \<and> n \<noteq> 0 \<longrightarrow>
         query js a t opts = Inr (Array_slice_to n (Array_slice_from k found)))
    \<and> (\<forall>k n. offset opts = Some k \<and> 0 < k \<and> limit opts = Some n \<and> 0 < n \<longrightarrow>
         query js a t opts = Inr (take (nat n) (drop (nat k) found)))"
  proof (intro allI impI)
    fix found
    assume f: "query js a t (opts\<lparr> offset := None, limit := None \<rparr>) = Inr found"
    note q = query_paged [OF f]
    have none: "zero_or_absent (offset opts) \<and> zero_or_absent (limit opts) \<longrightarrow>
         query js a t opts = Inr found"
      unfolding q by (auto simp: zero_or_absent_def Let_def)
    have off: "\<forall>k. offset opts = Some k \<and> k \<noteq> 0 \<and> zero_or_absent (limit opts) \<longrightarrow>
         query js a t opts = Inr (Array_slice_from k found)"
      unfolding q by (auto simp: zero_or_absent_def Let_def)
    have lim: "\<forall>n. zero_or_absent (offset opts) \<and> limit opts = Some n \<and> n \<noteq> 0 \<longrightarrow>
         query js a t opts = Inr (Array_slice_to n found)"
      unfolding q by (auto simp: zero_or_absent_def Let_def)
    have both: "\<forall>k n. offset opts = Some k \<and> k \<noteq> 0 \<and> limit opts = Some n \<and> n \<noteq> 0 \<longrightarrow>
         query js a t opts = Inr (Array_slice_to n (Array_slice_from k found))"
      unfolding q by (auto simp: Let_def)
    have pos: "\<forall>k n. offset opts = Some k \<and> 0 < k \<and> limit opts = Some n \<and> 0 < n \<longrightarrow>
         query js a t opts = Inr (take (nat n) (drop (nat k) found))"
      using both by (auto simp: slices_positive)
    show "(zero_or_absent (offset opts) \<and> zero_or_absent (limit opts) \<longrightarrow>
         query js a t opts = Inr found)
      \<and> (\<forall>k. offset opts = Some k \<and> k \<noteq> 0 \<and> zero_or_absent (limit opts) \<longrightarrow>
         query js a t opts = Inr (Array_slice_from k found))
      \<and> (\<forall>n. zero_or_absent (offset opts) \<and> limit opts = Some n \<and> n \<noteq> 0 \<longrightarrow>
         query js a t opts = Inr (Array_slice_to n found))
      \<and> (\<forall>k n. offset opts = Some k \<and> k \<noteq> 0 \<and> limit opts = Some n \<and> n \<noteq> 0 \<longrightarrow>
         query js a t opts = Inr (Array_slice_to n (Array_slice_from k found)))
      \<and> (\<forall>k n. offset opts = Some k \<and> 0 < k \<and> limit opts = Some n \<and> 0 < n \<longrightarrow>
         query js a t opts = Inr (take (nat n) (drop (nat k) found)))"
      using none off lim both pos by blast
  qed
  have err: "\<forall>e. query js a t (opts\<lparr> offset := None, limit := None \<rparr>) = Inl e \<longrightarrow>
         query js a t opts = Inl e"
    using query_paged_error by blast
  have all: "\<forall>s. objectStore a t = Inr s \<and> first_filter_plain opts s \<longrightarrow>
         query js a t (opts\<lparr> offset := None, limit := None \<rparr>) = Inr (matching js opts s)"
    using query_all_matching by blast
  have l1: "list js a t (Some opts) = query js a t opts" by (simp add: list_def)
  have l2: "\<forall>s. objectStore a t = Inr s \<longrightarrow> list js a t None = Inr (getAll s)"
    by (simp add: list_def query_def no_options_def query_request_def onsuccess_def)
  show ?thesis
    using paged err all l1 l2 query_limit_zero [of js a t opts] query_offset_zero [of js a t opts]
    by blast
qed

theorem query_zero_limit_offset_witness:
  "map_sum id (map id') (query example_host three_clients ''clients'' (no_options\<lparr> limit := Some 0 \<rparr>)) =
     Inr [Some ''id'', Some ''idx'', Some ''idxx'']
   \<and> map_sum id (map id') (query example_host three_clients ''clients'' (bia_options\<lparr> limit := Some 0 \<rparr>)) =
     Inr [Some ''idx'']
   \<and> map_sum id (map id')
        (query example_host three_clients ''clients'' (no_options\<lparr> offset := Some 1, limit := Some 1 \<rparr>)) =
     Inr [Some ''idx'']
   \<and> query example_host three_clients ''clients'' (no_options\<lparr> offset := Some 1, limit := Some 1 \<rparr>) =
     Inr (take 1 (drop 1 (matching example_host (no_options\<lparr> offset := Some 1, limit := Some 1 \<rparr>)
            (projr (objectStore three_clients ''clients'')))))
   \<and> map_sum id (map id') (Inr (matching example_host (no_options\<lparr> offset := Some 1, limit := Some 1 \<rparr>)
            (projr (objectStore three_clients ''clients''))) :: error + DataRecord list) =
     Inr [Some ''id'', Some ''idx'', Some ''idxx'']"
proof -
  let ?s = "projr (objectStore three_clients ''clients'')"
  let ?o = "no_options\<lparr> offset := Some 1, limit := Some 1 \<rparr>"
  have a: "map_sum id (map id') (query example_host three_clients ''clients'' (no_options\<lparr> limit := Some 0 \<rparr>)) =
     Inr [Some ''id'', Some ''idx'', Some ''idxx'']"
    by code_simp
  have b: "map_sum id (map id') (query example_host three_clients ''clients'' (bia_options\<lparr> limit := Some 0 \<rparr>)) =
     Inr [Some ''idx'']"
    by code_simp
  have c: "map_sum id (map id') (query example_host three_clients ''clients'' ?o) = Inr [Some ''idx'']"
    by code_simp
  have e: "map_sum id (map id') (Inr (matching example_host ?o ?s) :: error + DataRecord list) =
     Inr [Some ''id'', Some ''idx'', Some ''idxx'']"
    by code_simp
  have "isl (objectStore three_clients ''clients'') = False"
    by code_simp
  then have st: "objectStore three_clients ''clients'' = Inr ?s"
    by (cases "objectStore three_clients ''clients''") simp_all
  have pl: "first_filter_plain ?o ?s"
    by (simp add: first_filter_plain_def no_options_def)
  have o: "offset ?o = Some 1 \<and> (0::int) < 1 \<and> limit ?o = Some 1 \<and> (0::int) < 1"
    by simp
  note t = query_zero_limit_offset [of example_host three_clients "''clients''" ?o]
  from t [THEN conjunct2, THEN conjunct2, THEN conjunct1, rule_format, of ?s] st pl
  have f: "query example_host three_clients ''clients'' (?o\<lparr> offset := None, limit := None \<rparr>) =
     Inr (matching example_host ?o ?s)"
    by blast
  from t [THEN conjunct1, rule_format, OF f, THEN conjunct2, THEN conjunct2, THEN conjunct2,
      THEN conjunct2, rule_format, OF o]
  have d: "query example_host three_clients ''clients'' ?o =
     Inr (take 1 (drop 1 (matching example_host ?o ?s)))"
    by simp
  show ?thesis using a b c d e by blast
qed

subsection \<open>The conflict policy\<close>

lemma length_AList_update_fresh:
  "map_of al k = None \<Longrightarrow> length (AList.update k v al) = Suc (length al)"
  by (induction al) (auto split: if_splits)

lemma record_time_updated:
  "updated_at x = Some u \<Longrightarrow> u \<noteq> [] \<Longrightarrow> record_time js x = Date_getTime js u"
  by (simp add: record_time_def)

lemma record_time_fallback:
  "updated_at x = None \<or> updated_at x = Some [] \<Longrightarrow>
   record_time js x = (case created_at x of None \<Rightarrow> None | Some c \<Rightarrow> Date_getTime js c)"
  by (auto simp: record_time_def)

lemma resolveConflict_newest:
  assumes "strategy s = newest_wins" and "record_time js l = Some T1" and "record_time js r = Some T2"
  shows "resolveConflict js l r s = (if T1 \<le> T2 then res_remote else res_local, s)"
  using assms by (simp add: resolveConflict_def time_gt_def)

lemma resolveConflict_NaN:
  assumes "strategy s = newest_wins" and "record_time js l = None \<or> record_time js r = None"
  shows "resolveConflict js l r s = (res_remote, s)"
  using assms by (auto simp: resolveConflict_def time_gt_def split: option.splits)

lemma resolveConflict_manual:
  assumes "strategy s = manual"
  shows "resolveConflict js l r s =
           (res_manual,
            s\<lparr> conflicts := AList.update (template (id' l) @ ''_'' @ Date_now s (reads s))
                   \<lparr> c_record = l, c_local = l, c_remote = r, c_resolution = res_manual,
                     resolvedData = None \<rparr> (conflicts s),
                reads := Suc (reads s) \<rparr>)"
  using assms by (simp add: resolveConflict_def Let_def)

text \<open>
  Claim C4.  \<^verbatim>\<open>resolveConflict\<close> returns \<^verbatim>\<open>local\<close> under \<^verbatim>\<open>local-wins\<close> and \<^verbatim>\<open>remote\<close>
  under \<^verbatim>\<open>remote-wins\<close>, whatever the records.  Under \<^verbatim>\<open>newest-wins\<close> the time of
  a record is that of \<^verbatim>\<open>updated_at\<close>, or of \<^verbatim>\<open>created_at\<close> when \<^verbatim>\<open>updated_at\<close> is
  absent or empty; for a local time \<open>T1\<close> and a remote time \<open>T2\<close> the answer is
  \<^verbatim>\<open>remote\<close> exactly when \<open>T1 \<le> T2\<close>, and \<^verbatim>\<open>local\<close> otherwise.  Under \<^verbatim>\<open>manual\<close> the
  answer is \<^verbatim>\<open>manual\<close>, the local adapter and the remote service are left as
  they were, the pair is recorded under the key made of the local id and the
  clock reading, no other entry of the conflict map changes, and a key not yet
  in the map makes the map one entry longer; the step of the pull loop for
  such a pair does nothing else.
\<close>

theorem resolveConflict_policy:
  "(strategy s = local_wins \<longrightarrow> resolveConflict js l r s = (res_local, s))
   \<and> (strategy s = remote_wins \<longrightarrow> resolveConflict js l r s = (res_remote, s))
   \<and> (updated_at x = Some u \<and> u \<noteq> [] \<longrightarrow> record_time js x = Date_getTime js u)
   \<and> (updated_at x = None \<or> updated_at x = Some [] \<longrightarrow>
        record_time js x = (case created_at x of None \<Rightarrow> None | Some c \<Rightarrow> Date_getTime js c))
   \<and> (strategy s = newest_wins \<and> record_time js l = Some T1 \<and> record_time js r = Some T2 \<longrightarrow>
        snd (resolveConflict js l r s) = s
        \<and> (fst (resolveConflict js l r s) = res_remote \<longleftrightarrow> T1 \<le> T2)
        \<and> (fst (resolveConflict js l r s) = res_local \<longleftrightarrow> T2 < T1))
   \<and> (strategy s = manual \<longrightarrow>
        fst (resolveConflict js l r s) = res_manual
        \<and> localAdapter (snd (resolveConflict js l r s)) = localAdapter s
        \<and> remote_service (snd (resolveConflict js l r s)) = remote_service s
        \<and> map_of (conflicts (snd (resolveConflict js l r s)))
             (template (id' l) @ ''_'' @ Date_now s (reads s)) =
           Some \<lparr> c_record = l, c_local = l, c_remote = r, c_resolution = res_manual,
                  resolvedData = None \<rparr>
        \<and> (\<forall>k. k \<noteq> template (id' l) @ ''_'' @ Date_now s (reads s) \<longrightarrow>
               map_of (conflicts (snd (resolveConflict js l r s))) k = map_of (conflicts s) k)
        \<and> (map_of (conflicts s) (template (id' l) @ ''_'' @ Date_now s (reads s)) = None \<longrightarrow>
               length (conflicts (snd (resolveConflict js l r s))) = Suc (length (conflicts s))))
   \<and> (strategy s = manual \<and> localMap (id' r) = Some l \<longrightarrow>
        pull_remote js ra tbl localMap [r] s = (Inr (), snd (resolveConflict js l r s)))"
proof -
  have newest: "strategy s = newest_wins \<and> record_time js l = Some T1 \<and> record_time js r = Some T2 \<longrightarrow>
        snd (resolveConflict js l r s) = s
        \<and> (fst (resolveConflict js l r s) = res_remote \<longleftrightarrow> T1 \<le> T2)
        \<and> (fst (resolveConflict js l r s) = res_local \<longleftrightarrow> T2 < T1)"
    by (auto simp: resolveConflict_newest)
  have man: "strategy s = manual \<longrightarrow>
        fst (resolveConflict js l r s) = res_manual
        \<and> localAdapter (snd (resolveConflict js l r s)) = localAdapter s
        \<and> remote_service (snd (resolveConflict js l r s)) = remote_service s
        \<and> map_of (conflicts (snd (resolveConflict js l r s)))
             (template (id' l) @ ''_'' @ Date_now s (reads s)) =
           Some \<lparr> c_record = l, c_local = l, c_remote = r, c_resolution = res_manual,
                  resolvedData = None \<rparr>
        \<and> (\<forall>k. k \<noteq> template (id' l) @ ''_'' @ Date_now s (reads s) \<longrightarrow>
               map_of (conflicts (snd (resolveConflict js l r s))) k = map_of (conflicts s) k)
        \<and> (map_of (conflicts s) (template (id' l) @ ''_'' @ Date_now s (reads s)) = None \<longrightarrow>
               length (conflicts (snd (resolveConflict js l r s))) = Suc (length (conflicts s)))"
    by (simp add: resolveConflict_manual AList.update_conv' length_AList_update_fresh)
  have step: "strategy s = manual \<and> localMap (id' r) = Some l \<longrightarrow>
        pull_remote js ra tbl localMap [r] s = (Inr (), snd (resolveConflict js l r s))"
    by (simp add: resolveConflict_manual)
  have simple: "(strategy s = local_wins \<longrightarrow> resolveConflict js l r s = (res_local, s))
   \<and> (strategy s = remote_wins \<longrightarrow> resolveConflict js l r s = (res_remote, s))"
    by (simp add: resolveConflict_def)
  show ?thesis
    using simple newest man step record_time_updated [of x u js] record_time_fallback [of x js]
    by blast
qed

theorem resolveConflict_policy_witness:
  "resolveConflict example_host client_v5 client_v1_remote (online_sync\<lparr> strategy := local_wins \<rparr>) =
     (res_local, online_sync\<lparr> strategy := local_wins \<rparr>)
   \<and> resolveConflict example_host client_v5 client_v1_remote (online_sync\<lparr> strategy := remote_wins \<rparr>) =
     (res_remote, online_sync\<lparr> strategy := remote_wins \<rparr>)
   \<and> record_time example_host client_v5 = Some 1704153600000
   \<and> record_time example_host client_v1_remote = Some 1704067200000
   \<and> fst (resolveConflict example_host client_v5 client_v1_remote online_sync) = res_local
   \<and> fst (resolveConflict example_host client_v1_remote client_v5 online_sync) = res_remote
   \<and> fst (resolveConflict example_host client_v5 client_v5 online_sync) = res_remote
   \<and> fst (resolveConflict example_host client_v5 client_v1_remote (online_sync\<lparr> strategy := manual \<rparr>)) =
       res_manual
   \<and> conflicts (snd (resolveConflict example_host client_v5 client_v1_remote
        (online_sync\<lparr> strategy := manual \<rparr>))) = [(''c1_1704153600000'', the_conflict)]"
proof -
  have t5: "record_time example_host client_v5 = Some 1704153600000"
    by (simp add: record_time_def client_v5_def example_host_def example_getTime_def)
  have t1: "record_time example_host client_v1_remote = Some 1704067200000"
    by (simp add: record_time_def client_v1_remote_def example_host_def example_getTime_def)
  have st: "strategy online_sync = newest_wins"
    by (simp add: online_sync_def)
  have a: "resolveConflict example_host client_v5 client_v1_remote (online_sync\<lparr> strategy := local_wins \<rparr>) =
     (res_local, online_sync\<lparr> strategy := local_wins \<rparr>)"
    using resolveConflict_policy [where s = "online_sync\<lparr> strategy := local_wins \<rparr>"
        and js = example_host and l = client_v5 and r = client_v1_remote]
    by simp
  have b: "resolveConflict example_host client_v5 client_v1_remote (online_sync\<lparr> strategy := remote_wins \<rparr>) =
     (res_remote, online_sync\<lparr> strategy := remote_wins \<rparr>)"
    using resolveConflict_policy [where s = "online_sync\<lparr> strategy := remote_wins \<rparr>"
        and js = example_host and l = client_v5 and r = client_v1_remote]
    by simp
  have c: "fst (resolveConflict example_host client_v5 client_v1_remote online_sync) = res_local"
    using resolveConflict_policy [where s = online_sync and js = example_host
        and l = client_v5 and r = client_v1_remote and ?T1.0 = 1704153600000 and ?T2.0 = 1704067200000] st t5 t1
    by simp
  have d: "fst (resolveConflict example_host client_v1_remote client_v5 online_sync) = res_remote"
    using resolveConflict_policy [where s = online_sync and js = example_host
        and l = client_v1_remote and r = client_v5 and ?T1.0 = 1704067200000 and ?T2.0 = 1704153600000] st t5 t1
    by simp
  have e: "fst (resolveConflict example_host client_v5 client_v5 online_sync) = res_remote"
    using resolveConflict_policy [where s = online_sync and js = example_host
        and l = client_v5 and r = client_v5 and ?T1.0 = 1704153600000 and ?T2.0 = 1704153600000] st t5
    by simp
  have f: "fst (resolveConflict example_host client_v5 client_v1_remote (online_sync\<lparr> strategy := manual \<rparr>)) =
       res_manual"
    using resolveConflict_policy [where s = "online_sync\<lparr> strategy := manual \<rparr>"
        and js = example_host and l = client_v5 and r = client_v1_remote]
    by simp
  have g: "conflicts (snd (resolveConflict example_host client_v5 client_v1_remote
        (online_sync\<lparr> strategy := manual \<rparr>))) = [(''c1_1704153600000'', the_conflict)]"
    by (simp add: resolveConflict_def online_sync_def Let_def template_def client_v5_def the_conflict_def)
  show ?thesis using a b c d e f g t5 t1 by simp
qed

subsection \<open>One pass at a time\<close>

lemma in_flight_fire:
  "fst c = (if isSyncing (snd c) then 1 else 0) \<Longrightarrow>
   fst (fire js ev c) = (if isSyncing (snd (fire js ev c)) then 1 else 0)"
  by (cases c; cases ev) (auto simp: start_pass_def settle_pass_def sync_refused_def)

lemma in_flight_run:
  "fst c = (if isSyncing (snd c) then 1 else 0) \<Longrightarrow>
   fst (run js evs c) = (if isSyncing (snd (run js evs c)) then 1 else 0)"
  unfolding run_def
  by (induction evs arbitrary: c) (simp_all add: in_flight_fire)

lemma triggerSync_as_steps: "settle_pass js (start_pass (0, s)) = (0, triggerSync js s)"
  by (simp add: settle_pass_def start_pass_def triggerSync_def)

text \<open>
  Claim C6.  A call of \<^verbatim>\<open>triggerSync\<close> while the flag is set, without a remote
  adapter or offline changes nothing and starts no pass.  A pass that settles
  clears the flag, whatever its body returned; \<^verbatim>\<open>triggerSync\<close> run to its end is a
  started pass that settles, and leaves the flag cleared.  From a state with the
  flag cleared and no pass in flight, whatever calls and events follow, at most
  one pass is in flight, and one is in flight exactly while the flag is set.
\<close>

theorem triggerSync_one_pass_at_a_time:
  "(sync_refused s \<longrightarrow> triggerSync js s = s \<and> start_pass (n, s) = (n, s))
   \<and> (isSyncing s \<or> remoteAdapter s = None \<or> \<not> isOnline s \<longrightarrow> sync_refused s)
   \<and> (\<not> sync_refused s \<longrightarrow> \<not> isSyncing (triggerSync js s))
   \<and> (0 < n \<longrightarrow> \<not> isSyncing (snd (settle_pass js (n, s))))
   \<and> settle_pass js (start_pass (0, s)) = (0, triggerSync js s)
   \<and> (\<not> isSyncing s \<longrightarrow>
        fst (run js evs (0, s)) \<le> 1
        \<and> (isSyncing (snd (run js evs (0, s))) \<longleftrightarrow> fst (run js evs (0, s)) = 1))"
proof -
  have inv: "\<not> isSyncing s \<longrightarrow>
        fst (run js evs (0, s)) \<le> 1
        \<and> (isSyncing (snd (run js evs (0, s))) \<longleftrightarrow> fst (run js evs (0, s)) = 1)"
    using in_flight_run [of "(0, s)" js evs] by auto
  show ?thesis
    using inv
    by (simp add: triggerSync_as_steps)
       (simp add: triggerSync_def start_pass_def settle_pass_def sync_refused_def)
qed

theorem triggerSync_one_pass_witness:
  "sync_refused (online_sync\<lparr> isSyncing := True \<rparr>)
   \<and> triggerSync example_host (online_sync\<lparr> isSyncing := True \<rparr>) = online_sync\<lparr> isSyncing := True \<rparr>
   \<and> \<not> sync_refused online_sync
   \<and> \<not> isSyncing (triggerSync example_host online_sync)
   \<and> \<not> isSyncing online_sync
   \<and> fst (run example_host [Trigger, Trigger, Offline, Online, Settle, Trigger] (0, online_sync)) \<le> 1"
proof -
  have r: "sync_refused (online_sync\<lparr> isSyncing := True \<rparr>)"
    by (simp add: sync_refused_def)
  have nr: "\<not> sync_refused online_sync" and ns: "\<not> isSyncing online_sync"
    by (simp_all add: sync_refused_def online_sync_def)
  show ?thesis
    using triggerSync_one_pass_at_a_time [where s = "online_sync\<lparr> isSyncing := True \<rparr>"
        and js = example_host and n = 0 and evs = "[]"]
      triggerSync_one_pass_at_a_time [where s = online_sync and js = example_host and n = 0
        and evs = "[Trigger, Trigger, Offline, Online, Settle, Trigger]"] r nr ns
    by simp
qed

subsection \<open>Manual resolution\<close>

lemma find_map_of:
  "map_of al k = Some c \<Longrightarrow> P c \<Longrightarrow> find P (map snd al) \<noteq> None"
  by (induction al) (auto split: if_splits)

lemma dom_onupgradeneeded_empty: "dom (onupgradeneeded Map.empty) = set TABLES"
  by (auto simp add: onupgradeneeded_def TABLES_def split: if_splits)

lemma unknown_table_not_TABLES: "''unknown_table'' \<notin> set TABLES"
  by (simp add: TABLES_def)

text \<open>
  Claim C1, as the code has it.  With the object stores that \<^verbatim>\<open>initialize\<close>
  creates, \<^verbatim>\<open>resolveConflictManually\<close> on a recorded conflict fails with
  \<^verbatim>\<open>NotFoundError\<close>, raised by the local adapter for the store \<^verbatim>\<open>unknown_table\<close>,
  and changes nothing: the conflict stays in the map, and neither the local
  nor the remote copy is written.
\<close>

theorem resolveConflictManually_unknown_table:
  assumes "map_of (conflicts s) conflictId = Some c"
    and "db (localAdapter s) = Some d" and "dom d = set TABLES"
  shows "resolveConflictManually conflictId res customData s = (Inl (DOMException ''NotFoundError''), s)"
proof -
  have "d ''unknown_table'' = None"
    using assms(3) unknown_table_not_TABLES by blast
  then have "get (localAdapter s) ''unknown_table'' i = Inl (DOMException ''NotFoundError'')" for i
    using assms(2) by (simp add: get_def objectStore_def)
  then have u: "update (localAdapter s) ''unknown_table'' i x =
      (Inl (DOMException ''NotFoundError''), localAdapter s)" for i x
    by (simp add: update_def)
  have "find (\<lambda>c'. id' (c_record c') = id' (c_record c)) (map snd (conflicts s)) \<noteq> None"
    using assms(1) by (rule find_map_of) simp
  then show ?thesis
    using assms(1) u by (auto simp: resolveConflictManually_def Let_def)
qed

theorem resolveConflictManually_unknown_table_witness:
  "map_of (conflicts conflicted_sync) ''c1_1704153600000'' = Some the_conflict
   \<and> c_remote the_conflict = client_v1_remote
   \<and> get (localAdapter conflicted_sync) ''clients'' (Some ''c1'') = Inr (Some client_v5)
   \<and> resolveConflictManually ''c1_1704153600000'' res_remote None conflicted_sync =
       (Inl (DOMException ''NotFoundError''), conflicted_sync)"
proof -
  have d: "db (localAdapter conflicted_sync) = Some one_client_db"
    by (simp add: conflicted_sync_def online_sync_def one_client_def)
  have c: "map_of (conflicts conflicted_sync) ''c1_1704153600000'' = Some the_conflict"
    by (simp add: conflicted_sync_def)
  have dm: "dom one_client_db = set TABLES"
    by (auto simp: one_client_db_def dom_onupgradeneeded_empty TABLES_def)
  have g: "get (localAdapter conflicted_sync) ''clients'' (Some ''c1'') = Inr (Some client_v5)"
    by (simp add: get_def objectStore_def d one_client_db_def)
  show ?thesis
    using resolveConflictManually_unknown_table [OF c d dm, of res_remote None] c g
    by (simp add: the_conflict_def)
qed

subsection \<open>Object stores\<close>

lemma map_of_store_insert: "map_of (store_insert k r xs) = (map_of xs)(k \<mapsto> r)"
  by (induction xs) (auto simp: fun_eq_iff)

lemma set_store_insert_subset: "set (store_insert k r xs) \<subseteq> insert (k, r) (set xs)"
  by (induction xs) (auto split: if_splits)

lemma keys_store_insert: "fst ` set (store_insert k r xs) = insert k (fst ` set xs)"
  by (simp add: dom_map_of_conv_image_fst [symmetric] map_of_store_insert)

lemma sorted_store_insert:
  "sorted_wrt (<) (map fst xs) \<Longrightarrow> sorted_wrt (<) (map fst (store_insert k r xs))"
proof (induction xs)
  case Nil
  then show ?case by simp
next
  case (Cons p xs)
  obtain k' r' where p: "p = (k', r')" by (cases p)
  show ?case
  proof (cases "k = k'")
    case True
    with Cons.prems p show ?thesis by simp
  next
    case ne: False
    show ?thesis
    proof (cases "k < k'")
      case True
      with Cons.prems p ne show ?thesis by auto
    next
      case False
      with ne have lt: "k' < k" by simp
      have "\<forall>x \<in> fst ` set (store_insert k r xs). k' < x"
        using Cons.prems p lt by (auto simp: keys_store_insert)
      then show ?thesis
        using Cons p ne False by (auto simp: image_iff)
    qed
  qed
qed

lemma wf_store_insert:
  assumes "wf_store s" and "id' r = Some k"
  shows "wf_store (s\<lparr> records := store_insert k r (records s) \<rparr>)"
proof -
  have "list_all (\<lambda>(k, r). id' r = Some k) (store_insert k r (records s))"
    using assms set_store_insert_subset [of k r "records s"]
    by (auto simp: wf_store_def list_all_iff)
  then show ?thesis
    using assms by (simp add: wf_store_def sorted_store_insert)
qed

lemma wf_store_delete: "wf_store s \<Longrightarrow> wf_store (store_delete k s)"
  by (auto simp: wf_store_def store_delete_def AList.delete_eq list_all_iff sorted_wrt_filter sorted_wrt_map)

lemma wf_store_clear: "wf_store (store_clear s)"
  by (simp add: wf_store_def store_clear_def)

lemma wf_store_unique:
  assumes "wf_store s" and "(k, r) \<in> set (records s)"
  shows "map_of (records s) k = Some r" and "id' r = Some k"
proof -
  have "distinct (map fst (records s))"
    using assms(1) by (simp add: wf_store_def strict_sorted_iff[symmetric] sorted_wrt_map) (metis distinct_map strict_sorted_iff sorted_wrt_map)
  then show "map_of (records s) k = Some r" using assms(2) by simp
  show "id' r = Some k" using assms by (auto simp: wf_store_def list_all_iff)
qed

subsection \<open>Writes of the local adapter\<close>

lemma with_id_fields [simp]:
  "id' (with_id i r) = i"
  "created_at (with_id i r) = created_at r"
  "updated_at (with_id i r) = updated_at r"
  "version (with_id i r) = version r"
  "device_id (with_id i r) = device_id r"
  "sync_status (with_id i r) = sync_status r"
  "attrs (with_id i r) = attrs r"
  by (simp_all add: with_id_def)

lemma addMetadata_stamps:
  "id' (fst (addMetadata a x)) = Some (str_or (id' x) (generateId a))"
  "created_at (fst (addMetadata a x)) = Some (str_or (created_at x) (clock a (calls a)))"
  "updated_at (fst (addMetadata a x)) = Some (clock a (calls a))"
  "version (fst (addMetadata a x)) = Some (js_plus (num_or (version x) 0) 1)"
  "device_id (fst (addMetadata a x)) = Some (deviceId a)"
  "sync_status (fst (addMetadata a x)) = Some Pending"
  "attrs (fst (addMetadata a x)) = attrs x"
  "snd (addMetadata a x) = a\<lparr> calls := Suc (calls a) \<rparr>"
  by (simp_all add: addMetadata_def Let_def)

lemma get_commit_same:
  "db a = Some d \<Longrightarrow> get (commit a t s) t (Some k) = Inr (map_of (records s) k)"
  by (simp add: get_def objectStore_def commit_def)

lemma get_commit_other:
  "t' \<noteq> t \<Longrightarrow> get (commit a t s) t' i = get a t' i"
  by (cases "db a") (simp_all add: get_def objectStore_def commit_def)

lemma create_Inr:
  assumes "create a t x = (Inr r, a')"
  shows "r = fst (addMetadata a x)"
    and "\<exists>d s k. db a = Some d \<and> d t = Some s \<and> id' r = Some k \<and> map_of (records s) k = None \<and>
           a' = commit (a\<lparr> calls := Suc (calls a) \<rparr>) t (s\<lparr> records := store_insert k r (records s) \<rparr>)"
    and "get a' t (id' r) = Inr (Some r)"
proof -
  from assms obtain d where d: "db a = Some d"
    by (cases "db a") (simp_all add: create_def)
  obtain rec a1 where am: "addMetadata a x = (rec, a1)" by (cases "addMetadata a x")
  then have a1: "a1 = a\<lparr> calls := Suc (calls a) \<rparr>" and rec: "rec = fst (addMetadata a x)"
    using addMetadata_stamps(8) [of a x] by simp_all
  from assms d am a1 obtain s where s: "d t = Some s"
    by (cases "d t") (simp_all add: create_def objectStore_def)
  from rec obtain k where k: "id' rec = Some k"
    by (simp add: addMetadata_stamps)
  from assms d am a1 s k have ok: "map_of (records s) k = None" and r: "r = rec"
    and a': "a' = commit a1 t (s\<lparr> records := store_insert k rec (records s) \<rparr>)"
    by (auto simp: create_def objectStore_def store_add_def split: if_splits)
  show "r = fst (addMetadata a x)" using r rec by simp
  show "\<exists>d s k. db a = Some d \<and> d t = Some s \<and> id' r = Some k \<and> map_of (records s) k = None \<and>
           a' = commit (a\<lparr> calls := Suc (calls a) \<rparr>) t (s\<lparr> records := store_insert k r (records s) \<rparr>)"
    using d s k ok r a' a1 by auto
  show "get a' t (id' r) = Inr (Some r)"
    using a' a1 d r k by (simp add: get_commit_same map_of_store_insert)
qed

lemma create_stamped_write:
  assumes "create a t x = (res, a')"
  shows "stamped_write a a'"
proof (cases res)
  case (Inl e)
  with assms have "db a' = db a"
    by (auto simp: create_def addMetadata_def Let_def split: if_splits sum.splits)
  then show ?thesis by (simp add: stamped_write_def)
next
  case (Inr r)
  with assms create_Inr [of a t x r a'] obtain d s k where
    "db a = Some d" "d t = Some s" "id' r = Some k"
    "a' = commit (a\<lparr> calls := Suc (calls a) \<rparr>) t (s\<lparr> records := store_insert k r (records s) \<rparr>)"
    "r = fst (addMetadata a x)"
    by blast
  then show ?thesis
    unfolding stamped_write_def
    by (intro disjI2 exI [of _ d] exI [of _ t] exI [of _ s] exI [of _ k] exI [of _ r])
       (simp add: commit_def addMetadata_stamps)
qed

lemma update_Inr:
  assumes "update a t i x = (Inr r, a')"
  shows "\<exists>k old d s. i = Some k \<and> db a = Some d \<and> d t = Some s \<and> map_of (records s) k = Some old \<and>
           r = fst (addMetadata a (with_id i (spread old x))) \<and>
           a' = commit (a\<lparr> calls := Suc (calls a) \<rparr>) t
                  (s\<lparr> records := store_insert (str_or i (generateId a)) r (records s) \<rparr>)"
proof -
  from assms obtain old where g: "get a t i = Inr (Some old)"
    by (auto simp: update_def split: sum.splits option.splits)
  then obtain d s k where d: "db a = Some d" and s: "d t = Some s" and i: "i = Some k"
    and old: "map_of (records s) k = Some old"
    by (auto simp: get_def objectStore_def split: option.splits sum.splits)
  let ?y = "with_id i (spread old x)"
  obtain rec a1 where am: "addMetadata a ?y = (rec, a1)" by (cases "addMetadata a ?y")
  then have a1: "a1 = a\<lparr> calls := Suc (calls a) \<rparr>" and rec: "rec = fst (addMetadata a ?y)"
    using addMetadata_stamps(8) [of a ?y] by simp_all
  have idr: "id' rec = Some (str_or i (generateId a))"
    using rec by (simp add: addMetadata_stamps)
  from assms g d s am a1 idr have "r = rec"
    and "a' = commit a1 t (s\<lparr> records := store_insert (str_or i (generateId a)) rec (records s) \<rparr>)"
    by (auto simp: update_def objectStore_def store_put_def split: if_splits)
  then show ?thesis
    using i d s old rec a1 by auto
qed

lemma update_stamped_write:
  assumes "update a t i x = (res, a')"
  shows "stamped_write a a'"
proof (cases res)
  case (Inl e)
  with assms have "db a' = db a"
    by (auto simp: update_def addMetadata_def Let_def split: if_splits sum.splits option.splits)
  then show ?thesis by (simp add: stamped_write_def)
next
  case (Inr r)
  with assms update_Inr [of a t i x r a'] obtain k old d s where
    "i = Some k" "db a = Some d" "d t = Some s"
    "r = fst (addMetadata a (with_id i (spread old x)))"
    "a' = commit (a\<lparr> calls := Suc (calls a) \<rparr>) t
                  (s\<lparr> records := store_insert (str_or i (generateId a)) r (records s) \<rparr>)"
    by blast
  then show ?thesis
    unfolding stamped_write_def
    by (intro disjI2 exI [of _ d] exI [of _ t] exI [of _ s]
          exI [of _ "str_or i (generateId a)"] exI [of _ r])
       (simp add: commit_def addMetadata_stamps)
qed

lemma stamped_write_wf_db:
  assumes "stamped_write a a'" and "wf_db a"
  shows "wf_db a'"
  using assms unfolding stamped_write_def wf_db_def
  by (auto simp: wf_store_insert split: if_splits)

lemma stamped_write_all_pending:
  assumes "stamped_write a a'" and "all_pending a"
  shows "all_pending a'"
  using assms unfolding stamped_write_def all_pending_def
  by (auto split: if_splits dest!: set_store_insert_subset [THEN subsetD])

lemma stamped_write_unsynced_at:
  assumes "stamped_write a a'" and "unsynced_at a t k"
  shows "unsynced_at a' t k"
  using assms unfolding stamped_write_def unsynced_at_def
  by (auto simp: get_def objectStore_def map_of_store_insert split: option.splits if_splits)

lemma stamped_write_get_None:
  "stamped_write a a' \<Longrightarrow> get a t i = Inl e \<Longrightarrow> get a' t i = Inl e"
  unfolding stamped_write_def
  by (auto simp: get_def objectStore_def split: option.splits if_splits)

subsection \<open>Deletions of the local adapter\<close>

lemma delete_Inr:
  assumes "delete a t i = (Inr u, a')"
  shows "\<exists>d s k. i = Some k \<and> db a = Some d \<and> d t = Some s \<and> a' = commit a t (store_delete k s)"
  using assms by (auto simp: delete_def objectStore_def split: option.splits sum.splits)

lemma delete_Inl: "delete a t i = (Inl e, a') \<Longrightarrow> a' = a"
  by (auto simp: delete_def split: option.splits sum.splits)

lemma delete_wf_db:
  assumes "delete a t i = (res, a')" and "wf_db a"
  shows "wf_db a'"
proof (cases res)
  case (Inl e)
  with assms delete_Inl [of a t i e a'] show ?thesis by simp
next
  case (Inr u)
  with assms delete_Inr [of a t i u a'] show ?thesis
    by (auto simp: wf_db_def commit_def wf_store_delete split: if_splits)
qed

lemma delete_all_pending:
  assumes "delete a t i = (res, a')" and "all_pending a"
  shows "all_pending a'"
proof (cases res)
  case (Inl e)
  with assms delete_Inl [of a t i e a'] show ?thesis by simp
next
  case (Inr u)
  with assms delete_Inr [of a t i u a'] show ?thesis
    unfolding all_pending_def
    by (auto simp: commit_def store_delete_def AList.delete_eq split: if_splits)
qed

lemma delete_get_other:
  assumes "delete a t i = (res, a')" and "t' \<noteq> t \<or> i \<noteq> Some k"
  shows "get a' t' (Some k) = get a t' (Some k)"
proof (cases res)
  case (Inl e)
  with assms delete_Inl [of a t i e a'] show ?thesis by simp
next
  case (Inr u)
  with assms delete_Inr [of a t i u a'] obtain d s ka where
    f: "i = Some ka" "db a = Some d" "d t = Some s" "a' = commit a t (store_delete ka s)"
    by blast
  show ?thesis
  proof (cases "t' = t")
    case True
    with assms(2) f(1) have ne: "k \<noteq> ka" by simp
    have after: "get a' t (Some k) = Inr (map_of (records (store_delete ka s)) k)"
      using f by (simp add: get_commit_same)
    have before: "get a t (Some k) = Inr (map_of (records s) k)"
      using f by (simp add: get_def objectStore_def)
    show ?thesis
      using True ne after before by (simp add: store_delete_def)
  next
    case False
    with f show ?thesis by (simp add: get_commit_other)
  qed
qed

lemma delete_get_same:
  assumes "delete a t (Some k) = (Inr u, a')"
  shows "get a' t (Some k) = Inr None"
  using delete_Inr [OF assms]
  by (auto simp: get_def objectStore_def commit_def store_delete_def AList.delete_conv')

lemma delete_keeps_absent:
  assumes "delete a t i = (res, a')" and "get a t' (Some k) = Inr None"
  shows "get a' t' (Some k) = Inr None"
proof (cases res)
  case (Inl e)
  with assms delete_Inl [of a t i e a'] show ?thesis by simp
next
  case (Inr u)
  with assms delete_Inr [of a t i u a'] show ?thesis
    by (auto simp: get_def objectStore_def commit_def store_delete_def AList.delete_conv'
        split: option.splits if_splits)
qed

subsection \<open>Versions and timestamps under update\<close>

lemma spacing_small: "m < 9007199254740992 \<Longrightarrow> spacing m = 1"
  by (simp add: spacing.simps [of m])

lemma spacing_limit: "spacing 9007199254740992 = 2"
  by (simp add: spacing.simps [of 9007199254740992] spacing_small)

lemma round_double_small: "\<bar>x\<bar> \<le> 9007199254740992 \<Longrightarrow> round_double x = x"
proof (cases "\<bar>x\<bar> = 9007199254740992")
  case True
  then show ?thesis
    by (auto simp: round_double_def Let_def spacing_limit sgn_if abs_if split: if_splits)
next
  case False
  assume "\<bar>x\<bar> \<le> 9007199254740992"
  with False have "\<bar>x\<bar> < 9007199254740992" by simp
  then show ?thesis
    by (simp add: round_double_def Let_def spacing_small sgn_if abs_if)
qed

lemma js_plus_one: "\<bar>v\<bar> < 9007199254740992 \<Longrightarrow> js_plus v 1 = v + 1"
  by (simp add: js_plus_def round_double_small)

text \<open>
  Claim C9, as stated, fails on the code, in both halves.  The version is
  computed from the stored record overlaid with the patch: on a client stored
  at version 5, a patch that carries version 1 (the remote copy, as the pull
  pass passes it) leaves version 2, and a patch whose \<^verbatim>\<open>_version\<close> is
  \<^verbatim>\<open>undefined\<close> leaves version 1.  The version is a double: a client stored at
  version \<open>2^53\<close> is still at \<open>2^53\<close> after an update.  The time is
  the reading of the clock of the device: when that clock has been set back
  between the two writes, the new \<^verbatim>\<open>updated_at\<close> is before the stored one.
\<close>

theorem update_version_counterexample:
  "(get one_client ''clients'' (Some ''c1'') = Inr (Some client_v5)
     \<and> version client_v5 = Some 5
     \<and> version client_v1_remote = Some 1
     \<and> map_sum id version (fst (update one_client ''clients'' (Some ''c1'') client_v1_remote)) =
         Inr (Some 2)
     \<and> map_sum id version (fst (update one_client ''clients'' (Some ''c1'') unversioned_patch)) =
         Inr (Some 1))
   \<and> (map_sum id (map_option version) (get last_version_adapter ''clients'' (Some ''id'')) =
         Inr (Some (Some 9007199254740992))
     \<and> map_sum id version (fst (update last_version_adapter ''clients'' (Some ''id'') rename_patch)) =
         Inr (Some 9007199254740992))
   \<and> (map_sum id (map_option updated_at) (get set_back_adapter ''clients'' (Some ''id'')) =
         Inr (Some (Some ''2024-01-02T00:00:00.000Z''))
     \<and> map_sum id updated_at (fst (update set_back_adapter ''clients'' (Some ''id'') rename_patch)) =
         Inr (Some ''2024-01-01T00:00:00.000Z'')
     \<and> \<not> time_le example_host ''2024-01-02T00:00:00.000Z'' ''2024-01-01T00:00:00.000Z'')"
proof -
  have a1: "get one_client ''clients'' (Some ''c1'') = Inr (Some client_v5)"
    by (simp add: get_def objectStore_def one_client_def one_client_db_def fresh_adapter_def)
  have a2: "version client_v5 = Some 5" "version client_v1_remote = Some 1"
    by (simp_all add: client_v5_def client_v1_remote_def)
  have a3: "map_sum id version (fst (update one_client ''clients'' (Some ''c1'') client_v1_remote)) =
         Inr (Some 2)"
    by code_simp
  have a4: "map_sum id version (fst (update one_client ''clients'' (Some ''c1'') unversioned_patch)) =
         Inr (Some 1)"
    by code_simp
  have b1: "map_sum id (map_option version) (get last_version_adapter ''clients'' (Some ''id'')) =
         Inr (Some (Some 9007199254740992))"
    by code_simp
  have b2: "map_sum id version (fst (update last_version_adapter ''clients'' (Some ''id'') rename_patch)) =
         Inr (Some 9007199254740992)"
    by code_simp
  have c1: "map_sum id (map_option updated_at) (get set_back_adapter ''clients'' (Some ''id'')) =
         Inr (Some (Some ''2024-01-02T00:00:00.000Z''))"
    by code_simp
  have c2: "map_sum id updated_at (fst (update set_back_adapter ''clients'' (Some ''id'') rename_patch)) =
         Inr (Some ''2024-01-01T00:00:00.000Z'')"
    by code_simp
  have c3: "\<not> time_le example_host ''2024-01-02T00:00:00.000Z'' ''2024-01-01T00:00:00.000Z''"
    by (simp add: time_le_def example_host_def example_getTime_def)
  show ?thesis
    using a1 a2 a3 a4 b1 b2 c1 c2 c3 by simp
qed

text \<open>
  Claim C9, amended.  A successful update of an existing record sets
  \<^verbatim>\<open>_version\<close> to the double nearest to one more than the version of the stored
  record overlaid with the patch.  When the patch has no \<^verbatim>\<open>_version\<close> property,
  neither a value nor \<^verbatim>\<open>undefined\<close>, and the stored version is below \<open>2^53\<close>
  in magnitude, that is the stored version plus one, which is strictly more.
  The update sets \<^verbatim>\<open>updated_at\<close> to the reading of the clock taken by this
  update, and the record now stored under the id is the one returned.  When
  the stored \<^verbatim>\<open>updated_at\<close> is an earlier reading of a clock that never runs
  backwards, the new \<^verbatim>\<open>updated_at\<close> is not before it.
\<close>

theorem update_version_and_time:
  assumes "get a t i = Inr (Some r)" and "update a t i patch = (Inr r', a')"
  shows "version r' =
           Some (js_plus (num_or (overlay ''_version'' patch (version r) (version patch)) 0) 1)
       \<and> (version patch = None \<and> ''_version'' \<notin> undefined_props patch \<longrightarrow>
             (\<forall>v. version r = Some v \<and> \<bar>v\<bar> < 9007199254740992 \<longrightarrow>
                  version r' = Some (v + 1) \<and> v < v + 1))
       \<and> updated_at r' = Some (clock a (calls a))
       \<and> calls a' = Suc (calls a) \<and> clock a' = clock a
       \<and> (\<forall>k. i = Some k \<and> k \<noteq> [] \<longrightarrow> get a' t i = Inr (Some r'))
       \<and> (\<forall>u. updated_at r = Some u \<and> (\<exists>j\<le>calls a. u = clock a j)
               \<and> (\<forall>m n. m \<le> n \<longrightarrow> time_le js (clock a m) (clock a n)) \<longrightarrow>
             (\<exists>u'. updated_at r' = Some u' \<and> time_le js u u'))"
proof -
  from update_Inr [OF assms(2)] obtain k old d s where
    i: "i = Some k" and d: "db a = Some d" and s: "d t = Some s"
    and old: "map_of (records s) k = Some old"
    and r': "r' = fst (addMetadata a (with_id i (spread old patch)))"
    and a': "a' = commit (a\<lparr> calls := Suc (calls a) \<rparr>) t
                  (s\<lparr> records := store_insert (str_or i (generateId a)) r' (records s) \<rparr>)"
    by blast
  have "old = r"
    using assms(1) i d s old by (simp add: get_def objectStore_def)
  with r' have v: "version r' =
      Some (js_plus (num_or (overlay ''_version'' patch (version r) (version patch)) 0) 1)"
    and up: "updated_at r' = Some (clock a (calls a))"
    by (simp_all add: addMetadata_stamps spread_def)
  have plain: "version patch = None \<and> ''_version'' \<notin> undefined_props patch \<longrightarrow>
      (\<forall>v. version r = Some v \<and> \<bar>v\<bar> < 9007199254740992 \<longrightarrow>
           version r' = Some (v + 1) \<and> v < v + 1)"
    using v by (auto simp: overlay_def num_or_def js_plus_one)
  have stored: "\<forall>k. i = Some k \<and> k \<noteq> [] \<longrightarrow> get a' t i = Inr (Some r')"
    using a' d by (auto simp: get_commit_same map_of_store_insert str_or_def)
  have c: "calls a' = Suc (calls a) \<and> clock a' = clock a"
    using a' by (simp add: commit_def)
  show ?thesis
    using v plain up stored c by auto
qed

theorem update_version_and_time_witness:
  "map_sum id (map_option version) (get ana_adapter ''clients'' (Some ''id'')) = Inr (Some (Some 1))
   \<and> map_sum id (map_option updated_at) (get ana_adapter ''clients'' (Some ''id'')) =
       Inr (Some (Some ''2024-01-01T00:00:00.000Z''))
   \<and> map_sum id version (fst (update ana_adapter ''clients'' (Some ''id'') rename_patch)) =
       Inr (Some 2)
   \<and> map_sum id updated_at (fst (update ana_adapter ''clients'' (Some ''id'') rename_patch)) =
       Inr (Some ''2024-01-02T00:00:00.000Z'')
   \<and> time_le example_host ''2024-01-01T00:00:00.000Z'' ''2024-01-02T00:00:00.000Z''"
proof -
  have g1: "map_sum id (map_option version) (get ana_adapter ''clients'' (Some ''id'')) = Inr (Some (Some 1))"
    by code_simp
  have g2: "map_sum id (map_option updated_at) (get ana_adapter ''clients'' (Some ''id'')) =
       Inr (Some (Some ''2024-01-01T00:00:00.000Z''))"
    by code_simp
  from g1 obtain r where g: "get ana_adapter ''clients'' (Some ''id'') = Inr (Some r)"
    and vr: "version r = Some 1"
    by (cases "get ana_adapter ''clients'' (Some ''id'')") auto
  from g g2 have ur: "updated_at r = Some ''2024-01-01T00:00:00.000Z''" by simp
  have "isl (fst (update ana_adapter ''clients'' (Some ''id'') rename_patch)) = False"
    by code_simp
  then obtain r' a' where u: "update ana_adapter ''clients'' (Some ''id'') rename_patch = (Inr r', a')"
    by (cases "update ana_adapter ''clients'' (Some ''id'') rename_patch";
        cases "fst (update ana_adapter ''clients'' (Some ''id'') rename_patch)") auto
  have c: "calls ana_adapter = 1" "clock ana_adapter = clock fresh_adapter"
    by (simp_all add: ana_adapter_def create_def fresh_adapter_def addMetadata_def Let_def
        objectStore_def commit_def split: sum.splits option.splits)
  have p: "version rename_patch = None \<and> ''_version'' \<notin> undefined_props rename_patch"
    by (simp add: rename_patch_def)
  have small: "version r = Some 1 \<and> \<bar>1::int\<bar> < 9007199254740992"
    using vr by simp
  have mono: "\<forall>m n. m \<le> n \<longrightarrow> time_le example_host (clock ana_adapter m) (clock ana_adapter n)"
    by (auto simp: c fresh_adapter_def time_le_def example_host_def example_getTime_def)
  have j: "\<exists>j\<le>calls ana_adapter. ''2024-01-01T00:00:00.000Z'' = clock ana_adapter j"
    by (rule exI [of _ 0]) (simp add: c fresh_adapter_def)
  note t = update_version_and_time [OF g u, of example_host]
  from t [THEN conjunct2, THEN conjunct1, rule_format, OF p, OF small] have v2: "version r' = Some 2"
    by simp
  from t c have u2: "updated_at r' = Some ''2024-01-02T00:00:00.000Z''"
    by (simp add: fresh_adapter_def)
  from t ur j mono u2 have le: "time_le example_host ''2024-01-01T00:00:00.000Z'' ''2024-01-02T00:00:00.000Z''"
    by auto
  show ?thesis
    using g1 g2 u v2 u2 le by simp
qed

subsection \<open>The push phase\<close>

lemma replay_retries: "replay ra (opn\<lparr> retries := n \<rparr>) rs = replay ra opn rs"
  by (cases "operation opn") (simp_all add: replay_def)

lemma replay_all_Cons_Inl:
  assumes "replay ra opn rs = (Inl e, rs1)" and "replay_all ra ops rs1 = ((ops1, ok1), rs2)"
  shows "replay_all ra (opn # ops) rs =
           ((opn\<lparr> retries := retries opn + 1 \<rparr> # ops1,
             if 3 < retries opn + 1 then op_id opn # ok1 else ok1), rs2)"
  using assms by (simp add: Let_def)

lemma replay_all_Cons_Inr:
  assumes "replay ra opn rs = (Inr u, rs1)" and "replay_all ra ops rs1 = ((ops1, ok1), rs2)"
  shows "replay_all ra (opn # ops) rs = ((opn # ops1, op_id opn # ok1), rs2)"
  using assms by simp

lemma replay_failed_0:
  "replay_failed ra (opn # ops) rs 0 = isl (fst (replay ra opn rs))"
  by (simp add: replay_failed_def)

lemma replay_failed_Suc:
  "replay_failed ra (opn # ops) rs (Suc k) = replay_failed ra ops (snd (replay ra opn rs)) k"
  by (cases "replay ra opn rs")
     (auto simp: replay_failed_def Let_def split: sum.splits prod.splits)

lemma replay_all_effect_aux:
  "replay_all ra ops rs = ((ops', ok), rs') \<Longrightarrow>
     length ops' = length ops
     \<and> (\<forall>k<length ops. ops' ! k = (if replay_failed ra ops rs k
            then (ops ! k)\<lparr> retries := retries (ops ! k) + 1 \<rparr> else ops ! k))
     \<and> set ok = {op_id (ops ! k) | k. k < length ops \<and>
            (\<not> replay_failed ra ops rs k \<or> retries (ops ! k) + 1 > 3)}"
proof (induction ops arbitrary: rs ops' ok rs')
  case Nil
  then show ?case by simp
next
  case (Cons opn ops)
  obtain out rs1 where out: "replay ra opn rs = (out, rs1)" by (cases "replay ra opn rs")
  obtain ops1 ok1 rs2 where rec: "replay_all ra ops rs1 = ((ops1, ok1), rs2)"
    by (cases "replay_all ra ops rs1") auto
  note ih = Cons.IH [OF rec]
  let ?opn' = "if isl out then opn\<lparr> retries := retries opn + 1 \<rparr> else opn"
  let ?done = "\<not> isl out \<or> retries opn + 1 > 3"
  have whole: "replay_all ra (opn # ops) rs = ((?opn' # ops1, if ?done then op_id opn # ok1 else ok1), rs2)"
  proof (cases out)
    case (Inl e)
    with out rec replay_all_Cons_Inl [of ra opn rs e rs1 ops ops1 ok1 rs2] show ?thesis by simp
  next
    case (Inr u)
    with out rec replay_all_Cons_Inr [of ra opn rs u rs1 ops ops1 ok1 rs2] show ?thesis by simp
  qed
  from trans [OF whole [symmetric] Cons.prems]
  have o: "ops' = ?opn' # ops1" and k: "ok = (if ?done then op_id opn # ok1 else ok1)"
    by simp_all
  have f0: "replay_failed ra (opn # ops) rs 0 = isl out"
    using out by (simp add: replay_failed_0)
  have fS: "replay_failed ra (opn # ops) rs (Suc k) = replay_failed ra ops rs1 k" for k
    using out by (simp add: replay_failed_Suc)
  have len: "length ops' = length (opn # ops)"
    using o ih by simp
  have nth: "\<forall>k<length (opn # ops). ops' ! k = (if replay_failed ra (opn # ops) rs k
            then ((opn # ops) ! k)\<lparr> retries := retries ((opn # ops) ! k) + 1 \<rparr> else (opn # ops) ! k)"
  proof (intro allI impI)
    fix k assume "k < length (opn # ops)"
    then show "ops' ! k = (if replay_failed ra (opn # ops) rs k
          then ((opn # ops) ! k)\<lparr> retries := retries ((opn # ops) ! k) + 1 \<rparr> else (opn # ops) ! k)"
      using o ih f0 fS by (cases k) auto
  qed
  have "{op_id ((opn # ops) ! k) | k. k < length (opn # ops) \<and>
          (\<not> replay_failed ra (opn # ops) rs k \<or> retries ((opn # ops) ! k) + 1 > 3)}
      = (if ?done then {op_id opn} else {}) \<union>
        {op_id (ops ! k) | k. k < length ops \<and>
          (\<not> replay_failed ra ops rs1 k \<or> retries (ops ! k) + 1 > 3)}"
    (is "?L = ?R")
  proof
    show "?L \<subseteq> ?R"
    proof
      fix x assume "x \<in> ?L"
      then obtain k where k: "k < length (opn # ops)" "x = op_id ((opn # ops) ! k)"
        "\<not> replay_failed ra (opn # ops) rs k \<or> retries ((opn # ops) ! k) + 1 > 3"
        by blast
      show "x \<in> ?R"
      proof (cases k)
        case 0
        with k f0 show ?thesis by auto
      next
        case (Suc j)
        with k fS [of j] have "j < length ops" "x = op_id (ops ! j)"
          "\<not> replay_failed ra ops rs1 j \<or> retries (ops ! j) + 1 > 3"
          by auto
        then show ?thesis by blast
      qed
    qed
    show "?R \<subseteq> ?L"
    proof
      fix x assume "x \<in> ?R"
      then consider "?done" "x = op_id opn"
        | j where "j < length ops" "x = op_id (ops ! j)"
            "\<not> replay_failed ra ops rs1 j \<or> retries (ops ! j) + 1 > 3"
        by (auto split: if_splits)
      then show "x \<in> ?L"
      proof cases
        case 1
        then have "0 < length (opn # ops) \<and> x = op_id ((opn # ops) ! 0) \<and>
          (\<not> replay_failed ra (opn # ops) rs 0 \<or> retries ((opn # ops) ! 0) + 1 > 3)"
          using f0 by auto
        then show ?thesis by blast
      next
        case 2
        then have "Suc j < length (opn # ops) \<and> x = op_id ((opn # ops) ! Suc j) \<and>
          (\<not> replay_failed ra (opn # ops) rs (Suc j) \<or> retries ((opn # ops) ! Suc j) + 1 > 3)"
          using fS [of j] by auto
        then show ?thesis by blast
      qed
    qed
  qed
  then have st: "set ok = {op_id ((opn # ops) ! k) | k. k < length (opn # ops) \<and>
          (\<not> replay_failed ra (opn # ops) rs k \<or> retries ((opn # ops) ! k) + 1 > 3)}"
    using k ih by auto
  show ?case using len nth st by blast
qed

lemma replay_all_effect:
  assumes "replay_all ra ops rs = ((ops', ok), rs')"
  shows "length ops' = length ops"
    and "\<forall>k<length ops. ops' ! k = (if replay_failed ra ops rs k
            then (ops ! k)\<lparr> retries := retries (ops ! k) + 1 \<rparr> else ops ! k)"
    and "set ok = {op_id (ops ! k) | k. k < length ops \<and>
            (\<not> replay_failed ra ops rs k \<or> retries (ops ! k) + 1 > 3)}"
  using replay_all_effect_aux [OF assms] by blast+

lemma replay_all_ids:
  assumes "replay_all ra ops rs = ((ops', ok), rs')"
  shows "map op_id ops' = map op_id ops"
proof (rule nth_equalityI)
  show "length (map op_id ops') = length (map op_id ops)"
    using replay_all_effect(1) [OF assms] by simp
  fix i assume "i < length (map op_id ops')"
  then have i: "i < length ops" using replay_all_effect(1) [OF assms] by simp
  then show "map op_id ops' ! i = map op_id ops ! i"
    using replay_all_effect(1,2) [OF assms] by auto
qed

lemma processPendingOperations_queue:
  assumes "remoteAdapter s = Some ra"
    and "replay_all ra (pendingOperations s) (remote_service s) = ((ops', ok), rs')"
  shows "pendingOperations (snd (processPendingOperations s)) =
           filter (\<lambda>opn. op_id opn \<notin> set ok) ops'"
    and "remoteAdapter (snd (processPendingOperations s)) = Some ra"
    and "quota_exceeded (snd (processPendingOperations s)) = quota_exceeded s"
    and "\<not> quota_exceeded s \<Longrightarrow> fst (processPendingOperations s) = Inr ()"
    and "\<not> quota_exceeded s \<Longrightarrow>
           pending_sync_operations (snd (processPendingOperations s)) =
             Some (pendingOperations (snd (processPendingOperations s)))"
  using assms by (simp_all add: processPendingOperations_def savePendingOperations_def)

lemma push_pass_effect:
  assumes ra: "remoteAdapter s = Some ra"
    and dist: "distinct (map op_id (pendingOperations s))"
    and k: "k < length (pendingOperations s)"
  shows "replay_failed ra (pendingOperations s) (remote_service s) k \<Longrightarrow>
           retries (pendingOperations s ! k) + 1 \<le> 3 \<Longrightarrow>
           (pendingOperations s ! k)\<lparr> retries := retries (pendingOperations s ! k) + 1 \<rparr>
             \<in> set (pendingOperations (snd (processPendingOperations s)))"
    and "replay_failed ra (pendingOperations s) (remote_service s) k \<Longrightarrow>
           retries (pendingOperations s ! k) + 1 > 3 \<Longrightarrow>
           op_id (pendingOperations s ! k)
             \<notin> op_id ` set (pendingOperations (snd (processPendingOperations s)))"
    and "\<not> replay_failed ra (pendingOperations s) (remote_service s) k \<Longrightarrow>
           op_id (pendingOperations s ! k)
             \<notin> op_id ` set (pendingOperations (snd (processPendingOperations s)))"
proof -
  let ?ops = "pendingOperations s"
  obtain ops' ok rs' where R: "replay_all ra ?ops (remote_service s) = ((ops', ok), rs')"
    by (cases "replay_all ra ?ops (remote_service s)") auto
  note eff = replay_all_effect [OF R]
  note q = processPendingOperations_queue(1) [OF ra R]
  let ?P = "\<lambda>j. \<not> replay_failed ra ?ops (remote_service s) j \<or> retries (?ops ! j) + 1 > 3"
  have mem: "op_id (?ops ! k) \<in> set ok \<longleftrightarrow> ?P k"
  proof
    assume "op_id (?ops ! k) \<in> set ok"
    then obtain j where j: "j < length ?ops" "op_id (?ops ! j) = op_id (?ops ! k)" "?P j"
      using eff(3) by auto
    from j(1,2) k dist have "j = k"
      by (metis length_map nth_eq_iff_index_eq nth_map)
    with j(3) show "?P k" by simp
  next
    assume "?P k"
    with k show "op_id (?ops ! k) \<in> set ok" using eff(3) by auto
  qed
  have k': "k < length ops'" using k eff(1) by simp
  { assume f: "replay_failed ra ?ops (remote_service s) k" and r: "retries (?ops ! k) + 1 \<le> 3"
    have "ops' ! k = (?ops ! k)\<lparr> retries := retries (?ops ! k) + 1 \<rparr>"
      using eff(2) k f by simp
    moreover have "op_id (ops' ! k) \<notin> set ok"
      using mem f r calculation by simp
    ultimately show "(?ops ! k)\<lparr> retries := retries (?ops ! k) + 1 \<rparr>
             \<in> set (pendingOperations (snd (processPendingOperations s)))"
      using k' unfolding q by (metis (mono_tags, lifting) mem_Collect_eq nth_mem set_filter) }
  have gone: "?P k \<Longrightarrow> op_id (?ops ! k)
             \<notin> op_id ` set (pendingOperations (snd (processPendingOperations s)))"
    using mem unfolding q by auto
  { assume "replay_failed ra ?ops (remote_service s) k" and "retries (?ops ! k) + 1 > 3"
    then show "op_id (?ops ! k)
             \<notin> op_id ` set (pendingOperations (snd (processPendingOperations s)))"
      using gone by simp }
  { assume "\<not> replay_failed ra ?ops (remote_service s) k"
    then show "op_id (?ops ! k)
             \<notin> op_id ` set (pendingOperations (snd (processPendingOperations s)))"
      using gone by simp }
qed

lemma push_pass_frame:
  assumes ra: "remoteAdapter s = Some ra"
  shows "op_id ` set (pendingOperations (snd (processPendingOperations s)))
           \<subseteq> op_id ` set (pendingOperations s)"
    and "distinct (map op_id (pendingOperations s)) \<Longrightarrow>
           distinct (map op_id (pendingOperations (snd (processPendingOperations s))))"
    and "remoteAdapter (snd (processPendingOperations s)) = Some ra"
proof -
  let ?ops = "pendingOperations s"
  obtain ops' ok rs' where R: "replay_all ra ?ops (remote_service s) = ((ops', ok), rs')"
    by (cases "replay_all ra ?ops (remote_service s)") auto
  note q = processPendingOperations_queue(1) [OF ra R]
  note ids = replay_all_ids [OF R]
  have "op_id ` set ops' = op_id ` set ?ops"
    using ids by (metis set_map)
  then show "op_id ` set (pendingOperations (snd (processPendingOperations s)))
           \<subseteq> op_id ` set (pendingOperations s)"
    unfolding q by auto
  show "distinct (map op_id (pendingOperations (snd (processPendingOperations s))))"
    if "distinct (map op_id (pendingOperations s))"
    using that ids unfolding q by (simp add: distinct_map_filter)
  show "remoteAdapter (snd (processPendingOperations s)) = Some ra"
    using processPendingOperations_queue(2) [OF ra R] .
qed

lemma push_passes_Suc: "push_passes (Suc n) s = snd (processPendingOperations (push_passes n s))"
  by (simp add: push_passes_def)

lemma push_passes_inv:
  assumes "remoteAdapter s = Some ra" and "distinct (map op_id (pendingOperations s))"
  shows "remoteAdapter (push_passes n s) = Some ra
       \<and> distinct (map op_id (pendingOperations (push_passes n s)))"
proof (induction n)
  case 0
  with assms show ?case by (simp add: push_passes_def)
next
  case (Suc n)
  then show ?case
    using push_pass_frame(2,3) [of "push_passes n s" ra] by (simp add: push_passes_Suc)
qed

lemma consecutive_failures:
  assumes ra: "remoteAdapter s = Some ra"
    and dist: "distinct (map op_id (pendingOperations s))"
    and mem: "opn \<in> set (pendingOperations s)"
    and r0: "retries opn = 0"
    and fail: "\<forall>rs. isl (fst (replay ra opn rs))"
  shows "(n \<le> 3 \<longrightarrow> opn\<lparr> retries := int n \<rparr> \<in> set (pendingOperations (push_passes n s)))
       \<and> (4 \<le> n \<longrightarrow> op_id opn \<notin> op_id ` set (pendingOperations (push_passes n s)))"
proof (induction n)
  case 0
  have "opn\<lparr> retries := 0 \<rparr> = opn" using r0 by simp
  with mem show ?case by (simp add: push_passes_def)
next
  case (Suc n)
  let ?s = "push_passes n s"
  note inv = push_passes_inv [OF ra dist, of n]
  show ?case
  proof (cases "n \<le> 3")
    case True
    with Suc have "opn\<lparr> retries := int n \<rparr> \<in> set (pendingOperations ?s)" by simp
    then obtain k where k: "k < length (pendingOperations ?s)"
      and x: "pendingOperations ?s ! k = opn\<lparr> retries := int n \<rparr>"
      by (auto simp: in_set_conv_nth)
    have f: "replay_failed ra (pendingOperations ?s) (remote_service ?s) k"
      using fail x by (simp add: replay_failed_def replay_retries)
    show ?thesis
    proof (cases "n = 3")
      case True
      then have "retries (pendingOperations ?s ! k) + 1 > 3" using x by simp
      from push_pass_effect(2) [OF conjunct1 [OF inv] conjunct2 [OF inv] k f this]
      have "op_id opn \<notin> op_id ` set (pendingOperations (push_passes (Suc n) s))"
        using x by (simp add: push_passes_Suc)
      then show ?thesis using True by simp
    next
      case False
      with True have le: "retries (pendingOperations ?s ! k) + 1 \<le> 3" using x by simp
      from push_pass_effect(1) [OF conjunct1 [OF inv] conjunct2 [OF inv] k f le]
      have "opn\<lparr> retries := int (Suc n) \<rparr> \<in> set (pendingOperations (push_passes (Suc n) s))"
        using x by (simp add: push_passes_Suc add.commute)
      then show ?thesis using True False by simp
    qed
  next
    case False
    with Suc have "op_id opn \<notin> op_id ` set (pendingOperations ?s)" by simp
    then show ?thesis
      using push_pass_frame(1) [OF conjunct1 [OF inv]] False
      by (auto simp: push_passes_Suc)
  qed
qed

text \<open>
  Claim C5.  In a push phase with a remote adapter and a queue of distinct
  operation ids, the operation at any place \<open>k\<close> of the queue is replayed
  against the remote as the operations before it left it, whatever became of
  them.  When its replay fails and its retry count, incremented, is at most 3,
  it stays in the queue with the incremented count; when the incremented count
  exceeds 3 the queue no longer holds its id; when its replay succeeds the
  queue no longer holds its id.  The phase adds no operation, keeps the ids
  distinct, and writes the queue it leaves to \<^verbatim>\<open>localStorage\<close> (unless the
  write fails for lack of space), so a restart loads the same queue.  An
  operation that starts at 0 retries and fails whenever it is replayed is in
  the queue with \<open>n\<close> retries after \<open>n \<le> 3\<close> phases, and is in no queue from the
  fourth phase on.
\<close>

theorem push_retry_and_eviction:
  assumes "remoteAdapter s = Some ra"
    and "distinct (map op_id (pendingOperations s))"
    and "k < length (pendingOperations s)"
  shows "(replay_failed ra (pendingOperations s) (remote_service s) k
            \<and> retries (pendingOperations s ! k) + 1 \<le> 3 \<longrightarrow>
          (pendingOperations s ! k)\<lparr> retries := retries (pendingOperations s ! k) + 1 \<rparr>
            \<in> set (pendingOperations (snd (processPendingOperations s))))
       \<and> (replay_failed ra (pendingOperations s) (remote_service s) k
            \<and> retries (pendingOperations s ! k) + 1 > 3 \<longrightarrow>
          op_id (pendingOperations s ! k)
            \<notin> op_id ` set (pendingOperations (snd (processPendingOperations s))))
       \<and> (\<not> replay_failed ra (pendingOperations s) (remote_service s) k \<longrightarrow>
          op_id (pendingOperations s ! k)
            \<notin> op_id ` set (pendingOperations (snd (processPendingOperations s))))
       \<and> op_id ` set (pendingOperations (snd (processPendingOperations s)))
            \<subseteq> op_id ` set (pendingOperations s)
       \<and> distinct (map op_id (pendingOperations (snd (processPendingOperations s))))
       \<and> (\<not> quota_exceeded s \<longrightarrow>
            fst (processPendingOperations s) = Inr ()
            \<and> pending_sync_operations (snd (processPendingOperations s)) =
                Some (pendingOperations (snd (processPendingOperations s)))
            \<and> pendingOperations (loadPendingOperations (snd (processPendingOperations s))) =
                pendingOperations (snd (processPendingOperations s)))
       \<and> (retries (pendingOperations s ! k) = 0
            \<and> (\<forall>rs. isl (fst (replay ra (pendingOperations s ! k) rs))) \<longrightarrow>
          (\<forall>n\<le>3. (pendingOperations s ! k)\<lparr> retries := int n \<rparr>
                     \<in> set (pendingOperations (push_passes n s)))
          \<and> (\<forall>n\<ge>4. op_id (pendingOperations s ! k)
                     \<notin> op_id ` set (pendingOperations (push_passes n s))))"
proof -
  obtain ops' ok rs' where R: "replay_all ra (pendingOperations s) (remote_service s) = ((ops', ok), rs')"
    by (cases "replay_all ra (pendingOperations s) (remote_service s)") auto
  note q = processPendingOperations_queue [OF assms(1) R]
  have saved: "\<not> quota_exceeded s \<longrightarrow>
            fst (processPendingOperations s) = Inr ()
            \<and> pending_sync_operations (snd (processPendingOperations s)) =
                Some (pendingOperations (snd (processPendingOperations s)))
            \<and> pendingOperations (loadPendingOperations (snd (processPendingOperations s))) =
                pendingOperations (snd (processPendingOperations s))"
    using q(4,5) by (simp add: loadPendingOperations_def)
  have m: "pendingOperations s ! k \<in> set (pendingOperations s)"
    using assms(3) by simp
  have many: "retries (pendingOperations s ! k) = 0
            \<and> (\<forall>rs. isl (fst (replay ra (pendingOperations s ! k) rs))) \<longrightarrow>
          (\<forall>n\<le>3. (pendingOperations s ! k)\<lparr> retries := int n \<rparr>
                     \<in> set (pendingOperations (push_passes n s)))
          \<and> (\<forall>n\<ge>4. op_id (pendingOperations s ! k)
                     \<notin> op_id ` set (pendingOperations (push_passes n s)))"
    using consecutive_failures [OF assms(1,2) m] by blast
  show ?thesis
    using push_pass_effect [OF assms] push_pass_frame(1,2) [OF assms(1)] assms(2) saved many
    by blast
qed

theorem push_retry_and_eviction_witness:
  "remoteAdapter queued_sync = Some clients_down
   \<and> pendingOperations queued_sync = [push_client, push_product]
   \<and> retries push_client = 3
   \<and> replay_failed clients_down [push_client, push_product] () 0
   \<and> \<not> replay_failed clients_down [push_client, push_product] () 1
   \<and> op_id push_client \<notin> op_id ` set (pendingOperations (snd (processPendingOperations queued_sync)))
   \<and> op_id push_product \<notin> op_id ` set (pendingOperations (snd (processPendingOperations queued_sync)))
   \<and> push_client\<lparr> retries := 1 \<rparr>
        \<in> set (pendingOperations (snd (processPendingOperations
              (queued_sync\<lparr> pendingOperations := [push_client\<lparr> retries := 0 \<rparr>] \<rparr>))))
   \<and> push_client\<lparr> retries := 3 \<rparr>
        \<in> set (pendingOperations (push_passes 3
              (queued_sync\<lparr> pendingOperations := [push_client\<lparr> retries := 0 \<rparr>] \<rparr>)))
   \<and> op_id push_client
        \<notin> op_id ` set (pendingOperations (push_passes 4
              (queued_sync\<lparr> pendingOperations := [push_client\<lparr> retries := 0 \<rparr>] \<rparr>)))
   \<and> op_id push_client
        \<notin> op_id ` set (pendingOperations (push_passes 5
              (queued_sync\<lparr> pendingOperations := [push_client\<lparr> retries := 0 \<rparr>] \<rparr>)))"
proof -
  let ?q0 = "queued_sync\<lparr> pendingOperations := [push_client\<lparr> retries := 0 \<rparr>] \<rparr>"
  have ra: "remoteAdapter queued_sync = Some clients_down" "remoteAdapter ?q0 = Some clients_down"
    by (simp_all add: queued_sync_def)
  have q: "pendingOperations queued_sync = [push_client, push_product]"
    by (simp add: queued_sync_def)
  have rs: "remote_service queued_sync = ()" by simp
  have d: "distinct (map op_id (pendingOperations queued_sync))"
    by (simp add: q push_client_def push_product_def)
  have d0: "distinct (map op_id (pendingOperations ?q0))" by simp
  have fails: "isl (fst (replay clients_down push_client rs'))" for rs'
    by (simp add: replay_def push_client_def clients_down_def)
  have f0: "replay_failed clients_down [push_client, push_product] () 0"
    using fails by (simp add: replay_failed_def)
  have f1: "\<not> replay_failed clients_down [push_client, push_product] () 1"
    by (simp add: replay_failed_def replay_def push_client_def push_product_def clients_down_def)
  have r3: "retries push_client = 3" by (simp add: push_client_def)
  have k0: "0 < length (pendingOperations queued_sync)" and k1: "1 < length (pendingOperations queued_sync)"
    by (simp_all add: q)
  note t0 = push_retry_and_eviction [OF ra(1) d k0]
  note t1 = push_retry_and_eviction [OF ra(1) d k1]
  have a: "op_id push_client \<notin> op_id ` set (pendingOperations (snd (processPendingOperations queued_sync)))"
    using t0 f0 r3 by (simp add: q)
  have b: "op_id push_product \<notin> op_id ` set (pendingOperations (snd (processPendingOperations queued_sync)))"
    using t1 f1 by (simp add: q)
  have k: "0 < length (pendingOperations ?q0)" by simp
  note t = push_retry_and_eviction [OF ra(2) d0 k]
  have f: "replay_failed clients_down (pendingOperations ?q0) (remote_service ?q0) 0"
    using fails by (simp add: replay_failed_def replay_retries)
  have c: "push_client\<lparr> retries := 1 \<rparr>
        \<in> set (pendingOperations (snd (processPendingOperations ?q0)))"
    using t f by simp
  have always: "\<forall>rs. isl (fst (replay clients_down (pendingOperations ?q0 ! 0) rs))"
    using fails by (simp add: replay_retries)
  have many: "(\<forall>n\<le>3. (pendingOperations ?q0 ! 0)\<lparr> retries := int n \<rparr>
                     \<in> set (pendingOperations (push_passes n ?q0)))
          \<and> (\<forall>n\<ge>4. op_id (pendingOperations ?q0 ! 0)
                     \<notin> op_id ` set (pendingOperations (push_passes n ?q0)))"
    using t always by simp
  have e3: "push_client\<lparr> retries := 3 \<rparr> \<in> set (pendingOperations (push_passes 3 ?q0))"
    using many [THEN conjunct1, rule_format, of 3] by simp
  have e4: "op_id push_client \<notin> op_id ` set (pendingOperations (push_passes 4 ?q0))"
    using many [THEN conjunct2, rule_format, of 4] by simp
  have e5: "op_id push_client \<notin> op_id ` set (pendingOperations (push_passes 5 ?q0))"
    using many [THEN conjunct2, rule_format, of 5] by simp
  show ?thesis
    using ra(1) q r3 f0 f1 a b c e3 e4 e5 by blast
qed

end
